theory Spec2Isabelle
  imports Main "HOL-Library.Sublist" "HOL-Library.Monad_Syntax" "HOL-Library.Char_ord"
begin

section \<open>Strings and character classes\<close>

text \<open>
  A JavaScript string is a sequence of UTF-16 code units. The model uses \<open>string\<close>
  (\<open>char list\<close>), each \<open>char\<close> standing for the code unit of the same value, so it
  covers documents whose code units lie in 0..255; lengths and indices are those of
  JavaScript. The order on \<open>char\<close> is the order of the code units. The character
  classes are the ones of ECMAScript regular expressions without the \<open>u\<close> flag,
  restricted to that range.
\<close>

definition is_ws :: "char \<Rightarrow> bool" where
  \<comment> \<open>\<open>\s\<close>, and the characters removed by \<open>trim\<close>: TAB LF VT FF CR, SP, NBSP\<close>
  "is_ws c = ((CHR 0x09 \<le> c \<and> c \<le> CHR 0x0D) \<or> c = CHR 0x20 \<or> c = CHR 0xA0)"

definition is_line_terminator :: "char \<Rightarrow> bool" where
  \<comment> \<open>the characters \<open>.\<close> does not match: LF CR\<close>
  "is_line_terminator c = (c = CHR 0x0A \<or> c = CHR 0x0D)"

definition is_upper :: "char \<Rightarrow> bool" where
  "is_upper c = (CHR ''A'' \<le> c \<and> c \<le> CHR ''Z'')"

definition is_lower :: "char \<Rightarrow> bool" where
  "is_lower c = (CHR ''a'' \<le> c \<and> c \<le> CHR ''z'')"

definition is_digit :: "char \<Rightarrow> bool" where
  "is_digit c = (CHR ''0'' \<le> c \<and> c \<le> CHR ''9'')"

definition is_alnum :: "char \<Rightarrow> bool" where
  \<comment> \<open>\<open>[a-zA-Z0-9]\<close>\<close>
  "is_alnum c = (is_lower c \<or> is_upper c \<or> is_digit c)"

definition is_ident_start :: "char \<Rightarrow> bool" where
  \<comment> \<open>\<open>[a-zA-Z_]\<close>\<close>
  "is_ident_start c = (is_lower c \<or> is_upper c \<or> c = CHR ''_'')"

definition is_word :: "char \<Rightarrow> bool" where
  \<comment> \<open>\<open>\w\<close>\<close>
  "is_word c = (is_alnum c \<or> c = CHR ''_'')"

definition toLowerChar :: "char \<Rightarrow> char" where
  \<comment> \<open>lower case of an ASCII letter; the source lowers identifiers and registry names
      only, which are ASCII, and compares the result with ASCII text\<close>
  "toLowerChar c =
     (case map_of (zip ''ABCDEFGHIJKLMNOPQRSTUVWXYZ'' ''abcdefghijklmnopqrstuvwxyz'') c of
        Some l \<Rightarrow> l
      | None \<Rightarrow> c)"

definition toLowerCase :: "string \<Rightarrow> string" where
  "toLowerCase s = map toLowerChar s"

definition trimStart :: "string \<Rightarrow> string" where
  "trimStart s = dropWhile is_ws s"

definition trim :: "string \<Rightarrow> string" where
  "trim s = rev (dropWhile is_ws (rev (dropWhile is_ws s)))"

fun startsWith :: "string \<Rightarrow> string \<Rightarrow> bool" where
  "startsWith s [] = True"
| "startsWith [] (p # ps) = False"
| "startsWith (c # cs) (p # ps) = (c = p \<and> startsWith cs ps)"

fun includesStr :: "string \<Rightarrow> string \<Rightarrow> bool" where
  \<comment> \<open>\<open>String.prototype.includes\<close>\<close>
  "includesStr [] p = (p = [])"
| "includesStr (c # cs) p = (startsWith (c # cs) p \<or> includesStr cs p)"

fun find_index :: "string \<Rightarrow> string \<Rightarrow> nat option" where
  "find_index [] p = (if p = [] then Some 0 else None)"
| "find_index (c # cs) p =
     (if startsWith (c # cs) p then Some 0 else map_option Suc (find_index cs p))"

definition indexOf :: "string \<Rightarrow> string \<Rightarrow> nat \<Rightarrow> int" where
  \<comment> \<open>\<open>s.indexOf(p, from)\<close>: the first index at or after \<open>from\<close>, or -1\<close>
  "indexOf s p from =
     (let k = min from (length s)
      in case find_index (drop k s) p of None \<Rightarrow> - 1 | Some j \<Rightarrow> int (k + j))"

fun split_nl :: "string \<Rightarrow> string list" where
  \<comment> \<open>\<open>text.split('\n')\<close>\<close>
  "split_nl [] = [[]]"
| "split_nl (c # cs) =
     (if c = CHR 0x0A then [] # split_nl cs
      else let r = split_nl cs in (c # hd r) # tl r)"

definition strip_cr :: "string \<Rightarrow> string" where
  \<comment> \<open>\<open>line.replace(/\r$/, '')\<close>\<close>
  "strip_cr l = (if l \<noteq> [] \<and> last l = CHR 0x0D then butlast l else l)"

fun replace_comment :: "string \<Rightarrow> string" where
  \<comment> \<open>\<open>s.replace(/#.*$/, '')\<close>: cut at the first \<open>#\<close> that only characters matched by
      \<open>.\<close> separate from the end of the string\<close>
  "replace_comment [] = []"
| "replace_comment (c # cs) =
     (if c = CHR ''#'' \<and> (\<forall>d \<in> set cs. \<not> is_line_terminator d) then []
      else c # replace_comment cs)"

function replace_strings :: "string \<Rightarrow> string" where
  \<comment> \<open>\<open>s.replace(/"[^"]*"/g, '""')\<close>: an opening quote pairs with the next quote\<close>
  "replace_strings [] = []"
| "replace_strings (c # cs) =
     (if c = CHR 0x22 \<and> CHR 0x22 \<in> set cs
      then CHR 0x22 # CHR 0x22 # replace_strings (tl (dropWhile (\<lambda>d. d \<noteq> CHR 0x22) cs))
      else c # replace_strings cs)"
  by pat_completeness auto
termination
proof (relation "measure length")
  fix c :: char and cs :: string
  have "length (tl (dropWhile (\<lambda>d. d \<noteq> CHR 0x22) cs)) \<le> length cs"
    using length_dropWhile_le [of "\<lambda>d. d \<noteq> CHR 0x22" cs] by simp
  then show "(tl (dropWhile (\<lambda>d. d \<noteq> CHR 0x22) cs), c # cs) \<in> measure length"
    by simp
qed simp_all

section \<open>Regular expressions\<close>

text \<open>
  A matcher tries one regular expression at one position: it gets whether the
  character before the position is a word character (for a leading \<open>\b\<close>) and the rest
  of the string from the position on, and returns the captured groups and the length
  of the match. Every quantifier of the source's patterns is followed by something its
  own characters cannot match, so backtracking into it never succeeds and the greedy
  (longest) run is the only candidate: \<open>takeWhile\<close> and \<open>dropWhile\<close>.
\<close>

type_synonym 'a matcher = "bool \<Rightarrow> string \<Rightarrow> ('a \<times> nat) option"

definition word_boundary :: "bool \<Rightarrow> string \<Rightarrow> bool" where
  \<comment> \<open>\<open>\b\<close>\<close>
  "word_boundary pw s = (pw \<noteq> (case s of [] \<Rightarrow> False | c # _ \<Rightarrow> is_word c))"

fun lit :: "string \<Rightarrow> string \<Rightarrow> string option" where
  \<comment> \<open>a literal; returns the rest of the string\<close>
  "lit [] s = Some s"
| "lit (p # ps) [] = None"
| "lit (p # ps) (c # cs) = (if p = c then lit ps cs else None)"

fun lit_ci :: "string \<Rightarrow> string \<Rightarrow> string option" where
  \<comment> \<open>a lower-case ASCII literal under the \<open>i\<close> flag\<close>
  "lit_ci [] s = Some s"
| "lit_ci (p # ps) [] = None"
| "lit_ci (p # ps) (c # cs) = (if p = toLowerChar c then lit_ci ps cs else None)"

definition many1 :: "(char \<Rightarrow> bool) \<Rightarrow> string \<Rightarrow> (string \<times> string) option" where
  \<comment> \<open>\<open>C+\<close> for a character class: the run and the rest\<close>
  "many1 P s = (if takeWhile P s = [] then None else Some (takeWhile P s, dropWhile P s))"

fun search :: "'a matcher \<Rightarrow> bool \<Rightarrow> nat \<Rightarrow> string \<Rightarrow> (nat \<times> 'a \<times> nat) option" where
  \<comment> \<open>the leftmost position at which the matcher succeeds\<close>
  "search m pw i [] = map_option (\<lambda>r. (i, r)) (m pw [])"
| "search m pw i (c # cs) =
     (case m pw (c # cs) of
        Some r \<Rightarrow> Some (i, r)
      | None \<Rightarrow> search m (is_word c) (Suc i) cs)"

definition exec :: "'a matcher \<Rightarrow> string \<Rightarrow> nat \<Rightarrow> (nat \<times> 'a \<times> nat) option" where
  \<comment> \<open>\<open>RegExp.prototype.exec\<close> from \<open>lastIndex\<close>: the match index, the groups, the length\<close>
  "exec m s lastIndex =
     (if length s < lastIndex then None
      else search m (0 < lastIndex \<and> is_word (s ! (lastIndex - 1))) lastIndex (drop lastIndex s))"

definition test :: "'a matcher \<Rightarrow> string \<Rightarrow> bool" where
  "test m s = (exec m s 0 \<noteq> None)"

fun keyword_alt :: "string list \<Rightarrow> string \<Rightarrow> string option" where
  \<comment> \<open>\<open>(k1|k2|...)\b\<close>: the first alternative that matches and ends at a word boundary\<close>
  "keyword_alt [] s = None"
| "keyword_alt (k # ks) s =
     (case lit k s of
        Some rest \<Rightarrow> if word_boundary (is_word (last k)) rest then Some k else keyword_alt ks s
      | None \<Rightarrow> keyword_alt ks s)"

definition keywordPattern :: "string list \<Rightarrow> string matcher" where
  \<comment> \<open>\<open>/\b(k1|k2|...)\b/\<close>\<close>
  "keywordPattern ks pw s =
     (if word_boundary pw s then map_option (\<lambda>k. (k, length k)) (keyword_alt ks s) else None)"

definition blockPattern :: "string matcher" where
  \<comment> \<open>\<open>/\b(if|while|foreach|switch)\b/\<close>\<close>
  "blockPattern = keywordPattern [''if'', ''while'', ''foreach'', ''switch'']"

definition endPattern :: "string matcher" where
  \<comment> \<open>\<open>/\bend\b/\<close>\<close>
  "endPattern = keywordPattern [''end'']"

definition loopControlPattern :: "string matcher" where
  \<comment> \<open>\<open>/\b(break|continue)\b/\<close>\<close>
  "loopControlPattern = keywordPattern [''break'', ''continue'']"

definition startsWithElseifPattern :: "string \<Rightarrow> bool" where
  \<comment> \<open>\<open>/^\s*elseif\b/i\<close>\<close>
  "startsWithElseifPattern s =
     (case lit_ci ''elseif'' (dropWhile is_ws s) of
        Some rest \<Rightarrow> word_boundary True rest
      | None \<Rightarrow> False)"

definition varPrefixPattern :: "string \<Rightarrow> bool" where
  \<comment> \<open>\<open>/^\s*var\s+/\<close>\<close>
  "varPrefixPattern s =
     (case lit ''var'' (dropWhile is_ws s) of
        Some rest \<Rightarrow> many1 is_ws rest \<noteq> None
      | None \<Rightarrow> False)"

definition typeAnnotPattern :: "string \<Rightarrow> string option" where
  \<comment> \<open>\<open>/^var\s+\w+\s*:\s*(\w+)/\<close>: group 1\<close>
  "typeAnnotPattern s =
     do {
       r1 \<leftarrow> lit ''var'' s;
       (_, r2) \<leftarrow> many1 is_ws r1;
       (_, r3) \<leftarrow> many1 is_word r2;
       r4 \<leftarrow> lit '':'' (dropWhile is_ws r3);
       (ty, _) \<leftarrow> many1 is_word (dropWhile is_ws r4);
       Some ty
     }"

definition funcCallPattern :: "string matcher" where
  \<comment> \<open>\<open>/\b([A-Z][a-zA-Z0-9]*)\s*\(/g\<close>\<close>
  "funcCallPattern pw s =
     (if \<not> word_boundary pw s then None
      else case s of
        [] \<Rightarrow> None
      | c # cs \<Rightarrow>
          if \<not> is_upper c then None
          else do {
            rest \<leftarrow> lit ''('' (dropWhile is_ws (dropWhile is_alnum cs));
            Some (c # takeWhile is_alnum cs, length s - length rest)
          })"

definition varPattern :: "(string \<times> string option) matcher" where
  \<comment> \<open>\<open>/\bvar\s+(\w+)(?:\s*:\s*(\w+))?/g\<close>: groups 1 and 2\<close>
  "varPattern pw s =
     (if \<not> word_boundary pw s then None
      else do {
        r1 \<leftarrow> lit ''var'' s;
        (_, r2) \<leftarrow> many1 is_ws r1;
        (varName, r3) \<leftarrow> many1 is_word r2;
        (case do { r4 \<leftarrow> lit '':'' (dropWhile is_ws r3); many1 is_word (dropWhile is_ws r4) } of
           Some (varType, r5) \<Rightarrow> Some ((varName, Some varType), length s - length r5)
         | None \<Rightarrow> Some ((varName, None), length s - length r3))
      })"

definition foreachPattern :: "string matcher" where
  \<comment> \<open>\<open>/\bforeach\s+(\w+)\s+in\b/\<close>\<close>
  "foreachPattern pw s =
     (if \<not> word_boundary pw s then None
      else do {
        r1 \<leftarrow> lit ''foreach'' s;
        (_, r2) \<leftarrow> many1 is_ws r1;
        (varName, r3) \<leftarrow> many1 is_word r2;
        (_, r4) \<leftarrow> many1 is_ws r3;
        r5 \<leftarrow> lit ''in'' r4;
        if word_boundary True r5 then Some (varName, length s - length r5) else None
      })"

function dotted_segments :: "string \<Rightarrow> string" where
  \<comment> \<open>the characters matched by \<open>(?:\.[a-zA-Z_]\w*)*\<close>\<close>
  "dotted_segments (d # c # cs) =
     (if d = CHR ''.'' \<and> is_ident_start c
      then d # c # takeWhile is_word cs @ dotted_segments (dropWhile is_word cs)
      else [])"
| "dotted_segments [d] = []"
| "dotted_segments [] = []"
  by pat_completeness auto
termination
proof (relation "measure length")
  fix d c :: char and cs :: string
  have "length (dropWhile is_word cs) \<le> length cs"
    by (rule length_dropWhile_le)
  then show "(dropWhile is_word cs, d # c # cs) \<in> measure length"
    by simp
qed simp_all

definition propAssignPattern :: "string matcher" where
  \<comment> \<open>\<open>/\b([a-zA-Z_]\w*(?:\.[a-zA-Z_]\w*)+)\s*=/g\<close>\<close>
  "propAssignPattern pw s =
     (if \<not> word_boundary pw s then None
      else case s of
        [] \<Rightarrow> None
      | c # cs \<Rightarrow>
          if \<not> is_ident_start c then None
          else
            let segs = dotted_segments (dropWhile is_word cs);
                propPath = c # takeWhile is_word cs @ segs
            in if segs = [] then None
               else do {
                 rest \<leftarrow> lit ''='' (dropWhile is_ws (drop (length propPath) s));
                 Some (propPath, length s - length rest)
               })"

definition identPattern :: "string matcher" where
  \<comment> \<open>\<open>/\b([a-zA-Z_]\w*)\b/g\<close>\<close>
  "identPattern pw s =
     (if \<not> word_boundary pw s then None
      else case s of
        [] \<Rightarrow> None
      | c # cs \<Rightarrow>
          if is_ident_start c \<and> word_boundary True (dropWhile is_word cs)
          then Some (c # takeWhile is_word cs, Suc (length (takeWhile is_word cs)))
          else None)"

definition callParenPattern :: "string \<Rightarrow> bool" where
  \<comment> \<open>\<open>/^\s*\(/\<close>\<close>
  "callParenPattern s = (lit ''('' (dropWhile is_ws s) \<noteq> None)"

section \<open>The data model\<close>

datatype DiagnosticSeverity = Error | Warning | Information | Hint

record Position =
  line :: nat
  character :: int

record Range =
  range_start :: Position
  range_end :: Position

record Diagnostic =
  severity :: DiagnosticSeverity
  drange :: Range
  message :: string
  source :: string

record SymbolInfo =
  sym_name :: string
  sym_type :: "string option"
  sym_line :: nat
  sym_character :: int

record AnalyzerOptions =
  warnOnHostFunctions :: bool

record BlockEntry =
  block_type :: string
  block_line :: nat

record DocumentAnalyzer =
  doc_text :: string
  uri :: string
  lines :: "string list"
  diagnostics :: "Diagnostic list"
  symbols :: "SymbolInfo list"
  options :: AnalyzerOptions

datatype js_error = TypeError

definition keywordList :: "string list" where
  "keywordList =
     [''var'', ''if'', ''then'', ''else'', ''elseif'', ''end'', ''switch'', ''do'', ''case'',
      ''default'', ''while'', ''foreach'', ''in'', ''return'', ''fail'', ''break'', ''continue'',
      ''true'', ''false'', ''null'', ''and'', ''or'', ''not'', ''is'', ''Data'']"

definition typeKeywords :: "string list" where
  "typeKeywords = [''number'', ''string'', ''boolean'', ''object'', ''array'']"

definition getAllFunctionNames :: "string list" where
  \<comment> \<open>\<open>STDLIB_FUNCTIONS.map(f => f.name)\<close>: the 57 names of the registry, in its order\<close>
  "getAllFunctionNames =
     [''Upper'', ''Lower'', ''Trim'', ''Replace'', ''Contains'', ''StartsWith'', ''EndsWith'',
      ''Split'', ''Join'', ''ToNumber'', ''RandomString'', ''Length'', ''First'', ''Last'',
      ''Append'', ''Pop'', ''IndexOf'', ''Insert'', ''RemoveAt'', ''RemoveLast'', ''Clear'',
      ''Filter'', ''CountIf'', ''Sort'', ''SortByField'', ''Reverse'', ''MergeArrays'', ''Take'',
      ''GroupBy'', ''RandomChoice'', ''Min'', ''Max'', ''Sum'', ''Average'', ''Median'', ''Mode'',
      ''Abs'', ''Round'', ''RandomInt'', ''Now'', ''Today'', ''ParseDate'', ''FormatDate'',
      ''DateAdd'', ''DateDiff'', ''DatePart'', ''TypeOf'', ''IsNull'', ''Exists'', ''Equal'',
      ''NotEqual'', ''Base64Encode'', ''Base64Decode'', ''NewGuid'', ''CallScript'', ''Keys'',
      ''InvokeRestMethod'']"

definition functionNames :: "string list" where
  "functionNames = getAllFunctionNames"

definition defaultOptions :: AnalyzerOptions where
  "defaultOptions = \<lparr>warnOnHostFunctions = True\<rparr>"

definition new_DocumentAnalyzer :: "string \<Rightarrow> string \<Rightarrow> AnalyzerOptions \<Rightarrow> DocumentAnalyzer" where
  \<comment> \<open>the constructor\<close>
  "new_DocumentAnalyzer txt u opts =
     \<lparr>doc_text = txt, uri = u, lines = map strip_cr (split_nl txt),
      diagnostics = [], symbols = [], options = opts\<rparr>"

definition addDiagnostic ::
  "nat \<Rightarrow> int \<Rightarrow> nat \<Rightarrow> int \<Rightarrow> string \<Rightarrow> DiagnosticSeverity \<Rightarrow> DocumentAnalyzer \<Rightarrow> DocumentAnalyzer"
where
  "addDiagnostic startLine startChar endLine endChar msg sev this =
     this\<lparr>diagnostics := diagnostics this @
       [\<lparr>severity = sev,
         drange = \<lparr>range_start = \<lparr>line = startLine, character = startChar\<rparr>,
                   range_end = \<lparr>line = endLine, character = endChar\<rparr>\<rparr>,
         message = msg,
         source = ''jyro''\<rparr>]\<rparr>"

section \<open>checkSyntax\<close>

definition skipLine :: "string \<Rightarrow> bool" where
  \<comment> \<open>\<open>trimmed.startsWith('#') || trimmed.length === 0\<close>\<close>
  "skipLine trimmed = (startsWith trimmed ''#'' \<or> length trimmed = 0)"

definition countQuotes :: "string \<Rightarrow> nat" where
  \<comment> \<open>the number of matches of \<open>/"/g\<close>\<close>
  "countQuotes ln = length (filter (\<lambda>c. c = CHR 0x22) ln)"

definition checkUnclosedString :: "nat \<Rightarrow> string \<Rightarrow> DocumentAnalyzer \<Rightarrow> DocumentAnalyzer" where
  "checkUnclosedString lineIndex ln this =
     (if countQuotes ln \<noteq> 0 \<and> countQuotes ln mod 2 \<noteq> 0
      then addDiagnostic lineIndex 0 lineIndex (int (length ln)) ''Unclosed string literal'' Error this
      else this)"

definition isLoopType :: "string \<Rightarrow> bool" where
  "isLoopType t = (t = ''while'' \<or> t = ''foreach'')"

definition checkBlockStart ::
  "nat \<Rightarrow> string \<Rightarrow> string \<Rightarrow> BlockEntry list \<times> int \<Rightarrow> BlockEntry list \<times> int"
where
  "checkBlockStart lineIndex trimmed trimmedWithoutStrings = (\<lambda>(blockStack, inLoop).
     if \<not> startsWithElseifPattern trimmed \<and> test blockPattern trimmedWithoutStrings
     then (case exec blockPattern trimmedWithoutStrings 0 of
             Some (_, m1, _) \<Rightarrow>
               (blockStack @ [\<lparr>block_type = m1, block_line = lineIndex\<rparr>],
                if isLoopType m1 then inLoop + 1 else inLoop)
           | None \<Rightarrow> (blockStack, inLoop))
     else (blockStack, inLoop))"

definition unexpectedEndMessage :: string where
  \<open>unexpectedEndMessage = ''Unexpected "end" without matching block start''\<close>

definition checkBlockEnd ::
  "nat \<Rightarrow> string \<Rightarrow> string \<Rightarrow> BlockEntry list \<times> int \<times> DocumentAnalyzer
     \<Rightarrow> BlockEntry list \<times> int \<times> DocumentAnalyzer"
where
  "checkBlockEnd lineIndex trimmed trimmedWithoutStrings = (\<lambda>(blockStack, inLoop, this).
     if test endPattern trimmedWithoutStrings
     then if length blockStack = 0
          then (blockStack, inLoop,
                addDiagnostic lineIndex 0 lineIndex (int (length trimmed)) unexpectedEndMessage Error this)
          else (butlast blockStack,
                if isLoopType (block_type (last blockStack)) then inLoop - 1 else inLoop,
                this)
     else (blockStack, inLoop, this))"

definition loopControlMessage :: "string \<Rightarrow> string" where
  \<open>loopControlMessage trimmedWithoutStrings =
     ''"'' @ (if includesStr trimmedWithoutStrings ''break'' then ''break'' else ''continue'')
       @ ''" can only be used inside loops''\<close>

definition checkLoopControl ::
  "nat \<Rightarrow> string \<Rightarrow> string \<Rightarrow> int \<Rightarrow> DocumentAnalyzer \<Rightarrow> DocumentAnalyzer"
where
  "checkLoopControl lineIndex trimmed trimmedWithoutStrings inLoop this =
     (if test loopControlPattern trimmedWithoutStrings \<and> inLoop = 0
      then addDiagnostic lineIndex 0 lineIndex (int (length trimmed))
             (loopControlMessage trimmedWithoutStrings) Error this
      else this)"

definition unknownTypeMessage :: "string \<Rightarrow> string" where
  \<open>unknownTypeMessage t =
     ''Unknown type "'' @ t @ ''". Expected: number, string, boolean, object, or array''\<close>

definition checkTypeAnnotation :: "nat \<Rightarrow> string \<Rightarrow> string \<Rightarrow> DocumentAnalyzer \<Rightarrow> DocumentAnalyzer" where
  "checkTypeAnnotation lineIndex ln trimmed this =
     (if varPrefixPattern trimmed
      then (case typeAnnotPattern trimmed of
              Some t \<Rightarrow>
                if t \<notin> set typeKeywords
                then let pos = indexOf ln t 0
                     in addDiagnostic lineIndex pos lineIndex (pos + int (length t))
                          (unknownTypeMessage t) Error this
                else this
            | None \<Rightarrow> this)
      else this)"

subsection \<open>Every match of a global pattern moves \<open>lastIndex\<close> forward\<close>

lemma lit_length: "lit p s = Some r \<Longrightarrow> length s = length p + length r"
  by (induction p s rule: lit.induct) (auto split: if_splits)

lemma many1_append: "many1 P s = Some (a, r) \<Longrightarrow> a \<noteq> [] \<and> s = a @ r"
  by (auto simp: many1_def split: if_splits)

lemma many1_length: "many1 P s = Some (a, r) \<Longrightarrow> length r < length s"
  by (drule many1_append) auto

lemma search_Some:
  "search m pw i s = Some (idx, g, n) \<Longrightarrow>
     i \<le> idx \<and> idx \<le> i + length s \<and> (\<exists>pw'. m pw' (drop (idx - i) s) = Some (g, n))"
proof (induction s arbitrary: pw i)
  case Nil
  then show ?case by auto
next
  case (Cons c cs)
  show ?case
  proof (cases "m pw (c # cs)")
    case None
    with Cons.prems have "search m (is_word c) (Suc i) cs = Some (idx, g, n)"
      by simp
    from Cons.IH [OF this] obtain pw' where "Suc i \<le> idx" "idx \<le> Suc i + length cs"
      and p: "m pw' (drop (idx - Suc i) cs) = Some (g, n)"
      by blast
    moreover from \<open>Suc i \<le> idx\<close> have "idx - i = Suc (idx - Suc i)"
      by arith
    then have "drop (idx - i) (c # cs) = drop (idx - Suc i) cs"
      by simp
    ultimately show ?thesis
      by auto
  next
    case (Some r)
    with Cons.prems show ?thesis
      by auto
  qed
qed

lemma exec_Some:
  "exec m s k = Some (idx, g, n) \<Longrightarrow>
     k \<le> idx \<and> idx \<le> length s \<and> (\<exists>pw'. m pw' (drop idx s) = Some (g, n))"
  by (auto simp: exec_def split: if_splits dest!: search_Some)

lemma funcCallPattern_length:
  "funcCallPattern pw s = Some (g, n) \<Longrightarrow> 0 < n \<and> n \<le> length s"
proof -
  assume a: "funcCallPattern pw s = Some (g, n)"
  then obtain c cs rest where s: "s = c # cs"
    and r: "lit ''('' (dropWhile is_ws (dropWhile is_alnum cs)) = Some rest"
    and n: "n = length s - length rest"
    by (auto simp: funcCallPattern_def split: if_splits list.splits bind_splits)
  have "length rest < length (dropWhile is_ws (dropWhile is_alnum cs))"
    using lit_length [OF r] by simp
  also have "\<dots> \<le> length (dropWhile is_alnum cs)"
    by (rule length_dropWhile_le)
  also have "\<dots> \<le> length cs"
    by (rule length_dropWhile_le)
  finally show ?thesis
    using s n by simp
qed

lemma varPattern_length:
  "varPattern pw s = Some (g, n) \<Longrightarrow> 0 < n \<and> n \<le> length s"
proof -
  assume a: "varPattern pw s = Some (g, n)"
  then obtain r1 w r2 v r3 where r1: "lit ''var'' s = Some r1"
    and r2: "many1 is_ws r1 = Some (w, r2)"
    and r3: "many1 is_word r2 = Some (v, r3)"
    and n: "n = length s - length r3 \<or>
            (\<exists>r4 t r5. lit '':'' (dropWhile is_ws r3) = Some r4 \<and>
               many1 is_word (dropWhile is_ws r4) = Some (t, r5) \<and> n = length s - length r5)"
    by (auto simp: varPattern_def split: if_splits bind_splits option.splits)
  have l3: "length r3 < length s"
    using lit_length [OF r1] many1_length [OF r2] many1_length [OF r3] by simp
  from n show ?thesis
  proof
    assume "n = length s - length r3"
    with l3 show ?thesis by simp
  next
    assume "\<exists>r4 t r5. lit '':'' (dropWhile is_ws r3) = Some r4 \<and>
               many1 is_word (dropWhile is_ws r4) = Some (t, r5) \<and> n = length s - length r5"
    then obtain r4 t r5 where r4: "lit '':'' (dropWhile is_ws r3) = Some r4"
      and r5: "many1 is_word (dropWhile is_ws r4) = Some (t, r5)"
      and n5: "n = length s - length r5"
      by blast
    have "length r5 < length (dropWhile is_ws r4)"
      by (rule many1_length [OF r5])
    also have "\<dots> \<le> length r4"
      by (rule length_dropWhile_le)
    also have "\<dots> \<le> length (dropWhile is_ws r3)"
      using lit_length [OF r4] by simp
    also have "\<dots> \<le> length r3"
      by (rule length_dropWhile_le)
    finally show ?thesis
      using l3 n5 by simp
  qed
qed

lemma propAssignPattern_length:
  "propAssignPattern pw s = Some (g, n) \<Longrightarrow> 0 < n \<and> n \<le> length s"
proof -
  assume a: "propAssignPattern pw s = Some (g, n)"
  then obtain t rest where r: "lit ''='' (dropWhile is_ws t) = Some rest"
    and t: "length t \<le> length s"
    and n: "n = length s - length rest"
    by (auto simp: propAssignPattern_def Let_def split: if_splits list.splits bind_splits)
  have "length rest < length (dropWhile is_ws t)"
    using lit_length [OF r] by simp
  also have "\<dots> \<le> length t"
    by (rule length_dropWhile_le)
  finally show ?thesis
    using n t by simp
qed

lemma identPattern_length:
  "identPattern pw s = Some (g, n) \<Longrightarrow> 0 < n \<and> n \<le> length s"
proof -
  assume a: "identPattern pw s = Some (g, n)"
  then obtain c cs where s: "s = c # cs" and n: "n = Suc (length (takeWhile is_word cs))"
    by (auto simp: identPattern_def split: if_splits list.splits)
  have "length (takeWhile is_word cs) \<le> length cs"
    by (rule length_takeWhile_le)
  with s n show ?thesis by simp
qed

lemma exec_progress:
  assumes m: "\<And>pw t g n. m pw t = Some (g, n) \<Longrightarrow> 0 < n \<and> n \<le> length t"
    and e: "exec m s k = Some (idx, g, n)"
  shows "length s - (idx + n) < length s - k"
proof -
  from exec_Some [OF e] obtain pw' where k: "k \<le> idx" and i: "idx \<le> length s"
    and p: "m pw' (drop idx s) = Some (g, n)"
    by blast
  from m [OF p] have "0 < n" and "n \<le> length s - idx"
    by simp_all
  with k i show ?thesis by arith
qed

subsection \<open>The loops over the matches of a global pattern\<close>

text \<open>
  \<open>while ((m = pattern.exec(s)) !== null) { ... }\<close> visits the successive matches of the
  pattern, each search starting where the previous match ended. The model lists the
  matches first (the match index and the groups) and runs the loop body over the list;
  the bodies change neither the pattern nor the string.
\<close>

function funcCallMatches :: "string \<Rightarrow> nat \<Rightarrow> (nat \<times> string) list" where
  "funcCallMatches s lastIndex =
     (case exec funcCallPattern s lastIndex of
        None \<Rightarrow> []
      | Some (idx, funcName, n) \<Rightarrow> (idx, funcName) # funcCallMatches s (idx + n))"
  by pat_completeness auto
termination
  by (relation "measure (\<lambda>(s, k). length s - k)")
     (auto dest!: exec_progress [rotated, OF _ funcCallPattern_length])

function varMatches :: "string \<Rightarrow> nat \<Rightarrow> (nat \<times> string \<times> string option) list" where
  "varMatches s lastIndex =
     (case exec varPattern s lastIndex of
        None \<Rightarrow> []
      | Some (idx, groups, n) \<Rightarrow> (idx, groups) # varMatches s (idx + n))"
  by pat_completeness auto
termination
  by (relation "measure (\<lambda>(s, k). length s - k)")
     (auto dest!: exec_progress [rotated, OF _ varPattern_length])

function propAssignMatches :: "string \<Rightarrow> nat \<Rightarrow> (nat \<times> string) list" where
  "propAssignMatches s lastIndex =
     (case exec propAssignPattern s lastIndex of
        None \<Rightarrow> []
      | Some (idx, propPath, n) \<Rightarrow> (idx, propPath) # propAssignMatches s (idx + n))"
  by pat_completeness auto
termination
  by (relation "measure (\<lambda>(s, k). length s - k)")
     (auto dest!: exec_progress [rotated, OF _ propAssignPattern_length])

function identMatches :: "string \<Rightarrow> nat \<Rightarrow> (nat \<times> string) list" where
  "identMatches s lastIndex =
     (case exec identPattern s lastIndex of
        None \<Rightarrow> []
      | Some (idx, varName, n) \<Rightarrow> (idx, varName) # identMatches s (idx + n))"
  by pat_completeness auto
termination
  by (relation "measure (\<lambda>(s, k). length s - k)")
     (auto dest!: exec_progress [rotated, OF _ identPattern_length])

text \<open>The recursion equations are unfolded on demand only.\<close>

declare funcCallMatches.simps [simp del] varMatches.simps [simp del]
  propAssignMatches.simps [simp del] identMatches.simps [simp del]

subsection \<open>The pass over the lines\<close>

definition hostFunctionMessage :: "string \<Rightarrow> string" where
  \<open>hostFunctionMessage funcName =
     ''Referenced function "'' @ funcName @ ''" will need to be made available at runtime''\<close>

definition checkHostFunctions :: "nat \<Rightarrow> string \<Rightarrow> string \<Rightarrow> DocumentAnalyzer \<Rightarrow> DocumentAnalyzer" where
  "checkHostFunctions lineIndex ln trimmedWithoutStrings this =
     (if warnOnHostFunctions (options this)
      then fold (\<lambda>(idx, funcName) this.
                  if funcName \<in> set keywordList then this
                  else if funcName \<notin> set functionNames
                  then let leadingWhitespace = length ln - length (trimStart ln);
                           pos = leadingWhitespace + idx
                       in addDiagnostic lineIndex (int pos) lineIndex (int pos + int (length funcName))
                            (hostFunctionMessage funcName) Information this
                  else this)
             (funcCallMatches trimmedWithoutStrings 0) this
      else this)"

definition checkSyntaxLine ::
  "nat \<times> string \<Rightarrow> BlockEntry list \<times> int \<times> DocumentAnalyzer
     \<Rightarrow> BlockEntry list \<times> int \<times> DocumentAnalyzer"
where
  "checkSyntaxLine = (\<lambda>(lineIndex, ln) (blockStack, inLoop, this).
     let trimmed = trim ln
     in if skipLine trimmed then (blockStack, inLoop, this)
        else
          let withoutComments = replace_comment trimmed;
              trimmedWithoutStrings = replace_strings withoutComments;
              this1 = checkUnclosedString lineIndex ln this;
              (blockStack1, inLoop1) =
                 checkBlockStart lineIndex trimmed trimmedWithoutStrings (blockStack, inLoop);
              (blockStack2, inLoop2, this2) =
                 checkBlockEnd lineIndex trimmed trimmedWithoutStrings (blockStack1, inLoop1, this1);
              this3 = checkLoopControl lineIndex trimmed trimmedWithoutStrings inLoop2 this2;
              this4 = checkTypeAnnotation lineIndex ln trimmed this3
          in (blockStack2, inLoop2, checkHostFunctions lineIndex ln trimmedWithoutStrings this4))"

definition unclosedBlockMessage :: "string \<Rightarrow> string" where
  \<open>unclosedBlockMessage t = ''Unclosed "'' @ t @ ''" block - missing "end"''\<close>

definition checkSyntaxLines :: "DocumentAnalyzer \<Rightarrow> BlockEntry list \<times> int \<times> DocumentAnalyzer" where
  \<comment> \<open>\<open>this.lines.forEach((line, lineIndex) => ...)\<close>, from an empty stack and loop depth 0\<close>
  "checkSyntaxLines this = fold checkSyntaxLine (enumerate 0 (lines this)) ([], 0, this)"

definition checkSyntax :: "DocumentAnalyzer \<Rightarrow> js_error + DocumentAnalyzer" where
  "checkSyntax this =
     (case checkSyntaxLines this of
        (blockStack, inLoop, this1) \<Rightarrow>
          if length blockStack > 0
          then let unclosed = last blockStack
               in if block_line unclosed < length (lines this1)
                  then Inr (addDiagnostic (block_line unclosed) 0 (block_line unclosed)
                              (int (length (lines this1 ! block_line unclosed)))
                              (unclosedBlockMessage (block_type unclosed)) Error this1)
                  else Inl TypeError \<comment> \<open>\<open>this.lines[unclosed.line]\<close> is undefined: reading \<open>length\<close> throws\<close>
          else Inr this1)"

section \<open>extractSymbols\<close>

definition pushSymbol :: "string \<Rightarrow> string option \<Rightarrow> nat \<Rightarrow> int \<Rightarrow> DocumentAnalyzer \<Rightarrow> DocumentAnalyzer" where
  \<comment> \<open>\<open>this.symbols.push({ name, type, line, character })\<close>\<close>
  "pushSymbol nm ty ln ch this =
     this\<lparr>symbols := symbols this @
       [\<lparr>sym_name = nm, sym_type = ty, sym_line = ln, sym_character = ch\<rparr>]\<rparr>"

definition extractVarSymbols :: "nat \<Rightarrow> string \<Rightarrow> string \<Rightarrow> DocumentAnalyzer \<Rightarrow> DocumentAnalyzer" where
  "extractVarSymbols lineIndex ln trimmed this =
     fold (\<lambda>(idx, varName, varType) this.
            pushSymbol varName varType lineIndex (indexOf ln varName idx) this)
       (varMatches trimmed 0) this"

definition extractForeachSymbol :: "nat \<Rightarrow> string \<Rightarrow> string \<Rightarrow> DocumentAnalyzer \<Rightarrow> DocumentAnalyzer" where
  "extractForeachSymbol lineIndex ln trimmed this =
     (case exec foreachPattern trimmed 0 of
        Some (_, varName, _) \<Rightarrow>
          pushSymbol varName (Some ''iterator'') lineIndex (indexOf ln varName 0) this
      | None \<Rightarrow> this)"

definition extractPropSymbols ::
  "nat \<Rightarrow> string \<Rightarrow> string \<Rightarrow> string set \<times> DocumentAnalyzer \<Rightarrow> string set \<times> DocumentAnalyzer"
where
  "extractPropSymbols lineIndex ln trimmed st =
     fold (\<lambda>(idx, propPath) (seenProps, this).
            if propPath \<notin> seenProps
            then (insert propPath seenProps,
                  pushSymbol propPath (Some ''property'') lineIndex (indexOf ln propPath 0) this)
            else (seenProps, this))
       (propAssignMatches trimmed 0) st"

definition extractSymbolsLine ::
  "nat \<times> string \<Rightarrow> string set \<times> DocumentAnalyzer \<Rightarrow> string set \<times> DocumentAnalyzer"
where
  "extractSymbolsLine = (\<lambda>(lineIndex, ln) (seenProps, this).
     let trimmed = trim ln
     in if skipLine trimmed then (seenProps, this)
        else extractPropSymbols lineIndex ln trimmed
               (seenProps,
                extractForeachSymbol lineIndex ln trimmed
                  (extractVarSymbols lineIndex ln trimmed this)))"

definition extractSymbols :: "DocumentAnalyzer \<Rightarrow> DocumentAnalyzer" where
  "extractSymbols this = snd (fold extractSymbolsLine (enumerate 0 (lines this)) ({}, this))"

section \<open>validateSemantics\<close>

definition undefinedVariableMessage :: "string \<Rightarrow> string" where
  \<open>undefinedVariableMessage varName = ''Undefined variable "'' @ varName @ ''"''\<close>

definition matchesFunctionName :: "string \<Rightarrow> bool" where
  \<comment> \<open>\<open>this.functionNames.some(f => f.toLowerCase() === varName.toLowerCase())\<close>\<close>
  "matchesFunctionName varName =
     (\<exists>f \<in> set functionNames. toLowerCase f = toLowerCase varName)"

definition validateIdentifier ::
  "string set \<Rightarrow> nat \<Rightarrow> string \<Rightarrow> nat \<times> string \<Rightarrow> DocumentAnalyzer \<Rightarrow> DocumentAnalyzer"
where
  \<comment> \<open>the body of the loop over the identifiers of one line\<close>
  "validateIdentifier declaredVars lineIndex lineWithoutComments = (\<lambda>(pos, varName) this.
     let endPos = pos + length varName
     in if pos > 0 \<and> pos - 1 < length lineWithoutComments
           \<and> lineWithoutComments ! (pos - 1) = CHR ''.'' then this
        else if callParenPattern (drop endPos lineWithoutComments) then this
        else if varName \<in> set keywordList \<or> varName \<in> set typeKeywords
                \<or> matchesFunctionName varName then this
        else if varName \<notin> declaredVars
        then addDiagnostic lineIndex (int pos) lineIndex (int pos + int (length varName))
               (undefinedVariableMessage varName) Warning this
        else this)"

definition validateSemanticsLine :: "string set \<Rightarrow> nat \<times> string \<Rightarrow> DocumentAnalyzer \<Rightarrow> DocumentAnalyzer" where
  "validateSemanticsLine declaredVars = (\<lambda>(lineIndex, ln) this.
     let trimmed = trim ln
     in if skipLine trimmed then this
        else
          let lineWithoutStrings = replace_strings ln;
              lineWithoutComments = replace_comment lineWithoutStrings
          in fold (validateIdentifier declaredVars lineIndex lineWithoutComments)
               (identMatches lineWithoutComments 0) this)"

definition validateSemantics :: "DocumentAnalyzer \<Rightarrow> DocumentAnalyzer" where
  "validateSemantics this =
     (let declaredVars = insert ''Data'' (set (map sym_name (symbols this)))
      in fold (validateSemanticsLine declaredVars) (enumerate 0 (lines this)) this)"

section \<open>analyze and getSymbols\<close>

definition analyze :: "DocumentAnalyzer \<Rightarrow> js_error + Diagnostic list \<times> DocumentAnalyzer" where
  \<comment> \<open>the returned list and the analyzer after the call\<close>
  "analyze this =
     (case checkSyntax (this\<lparr>diagnostics := [], symbols := []\<rparr>) of
        Inl e \<Rightarrow> Inl e
      | Inr this1 \<Rightarrow>
          let this2 = validateSemantics (extractSymbols this1)
          in Inr (diagnostics this2, this2))"

definition getSymbols :: "DocumentAnalyzer \<Rightarrow> SymbolInfo list \<times> DocumentAnalyzer" where
  "getSymbols this =
     (let this1 = (if length (symbols this) = 0 then extractSymbols this else this)
      in (symbols this1, this1))"

section \<open>Notions for the statements and the proofs\<close>

definition mkDiagnostic :: "nat \<Rightarrow> int \<Rightarrow> nat \<Rightarrow> int \<Rightarrow> string \<Rightarrow> DiagnosticSeverity \<Rightarrow> Diagnostic" where
  "mkDiagnostic sl sc el ec msg sev =
     \<lparr>severity = sev,
      drange = \<lparr>range_start = \<lparr>line = sl, character = sc\<rparr>,
                range_end = \<lparr>line = el, character = ec\<rparr>\<rparr>,
      message = msg, source = ''jyro''\<rparr>"

definition emits :: "(Diagnostic \<Rightarrow> bool) \<Rightarrow> DocumentAnalyzer \<Rightarrow> DocumentAnalyzer \<Rightarrow> bool" where
  "emits Q this this' = (\<exists>new. this' = this\<lparr>diagnostics := diagnostics this @ new\<rparr> \<and> (\<forall>d \<in> set new. Q d))"

definition diag_at :: "nat \<Rightarrow> Diagnostic \<Rightarrow> bool" where
  "diag_at i d =
     (line (range_start (drange d)) = i \<and> line (range_end (drange d)) = i
      \<and> 0 \<le> character (range_start (drange d))
      \<and> character (range_start (drange d)) \<le> character (range_end (drange d))
      \<and> source d = ''jyro'')"

definition isUnclosedBlock :: "Diagnostic \<Rightarrow> bool" where
  \<open>isUnclosedBlock d = (take 10 (message d) = ''Unclosed "'')\<close>

definition errorAt :: "nat \<Rightarrow> Diagnostic \<Rightarrow> bool" where
  "errorAt i d = (diag_at i d \<and> severity d = Error \<and> \<not> isUnclosedBlock d)"

definition infoAt :: "nat \<Rightarrow> Diagnostic \<Rightarrow> bool" where
  "infoAt i d = (diag_at i d \<and> severity d = Information \<and> \<not> isUnclosedBlock d)"

definition syntaxDiag :: "nat \<Rightarrow> Diagnostic \<Rightarrow> bool" where
  "syntaxDiag i d = (errorAt i d \<or> infoAt i d)"

definition stack_ok :: "nat \<Rightarrow> BlockEntry list \<Rightarrow> bool" where
  "stack_ok n st = (\<forall>e \<in> set st. block_line e < n)"

definition pushes :: "(SymbolInfo \<Rightarrow> bool) \<Rightarrow> DocumentAnalyzer \<Rightarrow> DocumentAnalyzer \<Rightarrow> bool" where
  "pushes Q this this' = (\<exists>new. this' = this\<lparr>symbols := symbols this @ new\<rparr> \<and> (\<forall>s \<in> set new. Q s))"

definition warningAt :: "nat \<Rightarrow> Diagnostic \<Rightarrow> bool" where
  "warningAt i d = (diag_at i d \<and> severity d = Warning \<and> \<not> isUnclosedBlock d)"

definition lowerFunctionNames :: "string list" where
  "lowerFunctionNames =
     [''upper'', ''lower'', ''trim'', ''replace'', ''contains'', ''startswith'', ''endswith'',
      ''split'', ''join'', ''tonumber'', ''randomstring'', ''length'', ''first'', ''last'',
      ''append'', ''pop'', ''indexof'', ''insert'', ''removeat'', ''removelast'', ''clear'',
      ''filter'', ''countif'', ''sort'', ''sortbyfield'', ''reverse'', ''mergearrays'', ''take'',
      ''groupby'', ''randomchoice'', ''min'', ''max'', ''sum'', ''average'', ''median'', ''mode'',
      ''abs'', ''round'', ''randomint'', ''now'', ''today'', ''parsedate'', ''formatdate'',
      ''dateadd'', ''datediff'', ''datepart'', ''typeof'', ''isnull'', ''exists'', ''equal'',
      ''notequal'', ''base64encode'', ''base64decode'', ''newguid'', ''callscript'', ''keys'',
      ''invokerestmethod'']"

definition analyzeText :: "string \<Rightarrow> AnalyzerOptions \<Rightarrow> js_error + Diagnostic list \<times> SymbolInfo list" where
  "analyzeText txt opts = map_sum id (\<lambda>(ds, this). (ds, symbols this)) (analyze (new_DocumentAnalyzer txt [] opts))"

definition unclosedStringDiagnostic :: "nat \<Rightarrow> string \<Rightarrow> Diagnostic" where
  "unclosedStringDiagnostic i ln =
     mkDiagnostic i 0 i (int (length ln)) ''Unclosed string literal'' Error"

definition stripped :: "string \<Rightarrow> string" where
  \<comment> \<open>\<open>trimmedWithoutStrings\<close> of a line\<close>
  "stripped ln = replace_strings (replace_comment (trim ln))"






definition assignedPaths :: "string \<Rightarrow> string list" where
  \<comment> \<open>the dotted assignment targets on a line, from left to right\<close>
  "assignedPaths ln =
     (if skipLine (trim ln) then [] else map snd (propAssignMatches (trim ln) 0))"

definition dotted :: "string \<Rightarrow> bool" where
  "dotted p = (CHR ''.'' \<in> set p)"

definition propertySymbol :: "nat \<Rightarrow> string \<Rightarrow> string \<Rightarrow> SymbolInfo" where
  "propertySymbol i ln p =
     \<lparr>sym_name = p, sym_type = Some ''property'', sym_line = i, sym_character = indexOf ln p 0\<rparr>"

definition named :: "string \<Rightarrow> SymbolInfo list \<Rightarrow> SymbolInfo list" where
  "named p syms = filter (\<lambda>s. sym_name s = p) syms"





definition wordChars :: "string \<Rightarrow> bool" where
  "wordChars k = (k \<noteq> [] \<and> (\<forall>c \<in> set k. is_word c))"


















definition infos :: "Diagnostic list \<Rightarrow> Diagnostic list" where
  "infos ds = filter (\<lambda>d. severity d = Information) ds"

section \<open>Properties of the passes\<close>

lemma addDiagnostic_fields [simp]:
  "lines (addDiagnostic sl sc el ec msg sev this) = lines this"
  "options (addDiagnostic sl sc el ec msg sev this) = options this"
  "symbols (addDiagnostic sl sc el ec msg sev this) = symbols this"
  by (simp_all add: addDiagnostic_def)

lemma emits_refl [simp]: "emits Q this this"
  by (auto simp: emits_def intro: exI [of _ "[]"])

lemma emits_trans [trans]: "emits Q a b \<Longrightarrow> emits Q b c \<Longrightarrow> emits Q a c"
  unfolding emits_def
proof (elim exE conjE)
  fix n1 n2
  assume "b = a\<lparr>diagnostics := diagnostics a @ n1\<rparr>" "c = b\<lparr>diagnostics := diagnostics b @ n2\<rparr>"
    and q: "\<forall>d \<in> set n1. Q d" "\<forall>d \<in> set n2. Q d"
  then have "c = a\<lparr>diagnostics := diagnostics a @ (n1 @ n2)\<rparr>"
    by simp
  moreover from q have "\<forall>d \<in> set (n1 @ n2). Q d"
    by auto
  ultimately show "\<exists>new. c = a\<lparr>diagnostics := diagnostics a @ new\<rparr> \<and> (\<forall>d \<in> set new. Q d)"
    by blast
qed

lemma emits_addDiagnostic:
  "Q (mkDiagnostic sl sc el ec msg sev) \<Longrightarrow> emits Q this (addDiagnostic sl sc el ec msg sev this)"
  by (auto simp: emits_def addDiagnostic_def mkDiagnostic_def
      intro!: exI [of _ "[mkDiagnostic sl sc el ec msg sev]"])

lemma emits_mono: "emits Q a b \<Longrightarrow> (\<And>d. Q d \<Longrightarrow> R d) \<Longrightarrow> emits R a b"
  by (auto simp: emits_def)

lemma emits_fields:
  "emits Q a b \<Longrightarrow> lines b = lines a \<and> options b = options a \<and> symbols b = symbols a"
  by (auto simp: emits_def)

lemma emits_diagnostics:
  "emits Q a b \<Longrightarrow> \<exists>new. diagnostics b = diagnostics a @ new \<and> (\<forall>d \<in> set new. Q d)"
  by (auto simp: emits_def)

lemma emits_fold:
  assumes "\<And>x s. x \<in> set xs \<Longrightarrow> emits Q s (f x s)"
  shows "emits Q s (fold f xs s)"
  using assms
proof (induction xs arbitrary: s)
  case Nil
  show ?case by simp
next
  case (Cons x xs)
  have "emits Q s (f x s)"
    by (rule Cons.prems) simp
  moreover have "emits Q (f x s) (fold f xs (f x s))"
    by (rule Cons.IH) (simp add: Cons.prems)
  ultimately show ?case
    by (simp add: emits_trans)
qed

lemma fold_invariant:
  assumes "P s" and "\<And>x s. x \<in> set xs \<Longrightarrow> P s \<Longrightarrow> P (f x s)"
  shows "P (fold f xs s)"
  using assms by (induction xs arbitrary: s) auto

lemma lit_append: "lit p s = Some r \<Longrightarrow> s = p @ r"
  by (induction p s rule: lit.induct) (auto split: if_splits)

lemma startsWith_prefix: "startsWith s p = prefix p s"
  by (induction s p rule: startsWith.induct) auto

lemma find_index_sublist: "sublist p s \<Longrightarrow> \<exists>k. find_index s p = Some k"
proof (induction s)
  case Nil
  then show ?case by simp
next
  case (Cons c cs)
  then show ?case
    by (auto simp: sublist_Cons_right startsWith_prefix)
qed

lemma indexOf_sublist: "sublist p s \<Longrightarrow> 0 \<le> indexOf s p 0"
  by (auto simp: indexOf_def dest!: find_index_sublist)

lemma sublist_trim: "sublist (trim s) s"
proof -
  have "prefix (trim s) (dropWhile is_ws s)"
    unfolding trim_def
    using suffix_dropWhile [of is_ws "rev (dropWhile is_ws s)"]
    by (simp add: suffix_to_prefix)
  moreover have "suffix (dropWhile is_ws s) s"
    by (rule suffix_dropWhile)
  ultimately show ?thesis
    unfolding sublist_altdef' by blast
qed

lemma suffix_lit: "lit p s = Some r \<Longrightarrow> suffix r s"
  by (drule lit_append) (simp add: suffix_def)

lemma suffix_many1: "many1 P s = Some (a, r) \<Longrightarrow> suffix r s \<and> prefix a s"
  by (drule many1_append) (auto simp: suffix_def)

lemma suffix_trans: "suffix a b \<Longrightarrow> suffix b c \<Longrightarrow> suffix a (c :: 'a list)"
  by (auto simp: suffix_def)

lemma sublist_trans: "sublist a b \<Longrightarrow> sublist b c \<Longrightarrow> sublist a (c :: 'a list)"
  unfolding sublist_def
proof (elim exE)
  fix p1 s1 p2 s2
  assume "b = p1 @ a @ s1" "c = p2 @ b @ s2"
  then have "c = (p2 @ p1) @ a @ (s1 @ s2)"
    by simp
  then show "\<exists>ps ss. c = ps @ a @ ss"
    by blast
qed

lemma typeAnnotPattern_sublist:
  assumes "typeAnnotPattern s = Some t"
  shows "sublist t s"
proof -
  from assms obtain r1 w r2 v r3 r4 r5 where r1: "lit ''var'' s = Some r1"
    and r2: "many1 is_ws r1 = Some (w, r2)"
    and r3: "many1 is_word r2 = Some (v, r3)"
    and r4: "lit '':'' (dropWhile is_ws r3) = Some r4"
    and r5: "many1 is_word (dropWhile is_ws r4) = Some (t, r5)"
    by (auto simp: typeAnnotPattern_def split: bind_splits)
  note tr = suffix_trans
  have "suffix r2 s"
    by (rule tr [OF _ suffix_lit [OF r1]]) (simp add: suffix_many1 [OF r2])
  then have "suffix r3 s"
    by (rule tr [rotated]) (simp add: suffix_many1 [OF r3])
  then have "suffix (dropWhile is_ws r3) s"
    by (rule tr [rotated]) (rule suffix_dropWhile)
  then have "suffix r4 s"
    by (rule tr [rotated]) (rule suffix_lit [OF r4])
  then have "suffix (dropWhile is_ws r4) s"
    by (rule tr [rotated]) (rule suffix_dropWhile)
  moreover have "prefix t (dropWhile is_ws r4)"
    using suffix_many1 [OF r5] by simp
  ultimately show ?thesis
    unfolding sublist_altdef' by blast
qed

lemma mk_diag_at [simp]:
  "diag_at i (mkDiagnostic sl sc el ec msg sev) = (sl = i \<and> el = i \<and> 0 \<le> sc \<and> sc \<le> ec)"
  by (auto simp: diag_at_def mkDiagnostic_def)

lemma mk_fields [simp]:
  "severity (mkDiagnostic sl sc el ec msg sev) = sev"
  "message (mkDiagnostic sl sc el ec msg sev) = msg"
  by (simp_all add: mkDiagnostic_def)

lemma not_unclosed_messages [simp]:
  "take 10 ''Unclosed string literal'' \<noteq> ''Unclosed \"''"
  "take 10 unexpectedEndMessage \<noteq> ''Unclosed \"''"
  "take 10 (loopControlMessage s) \<noteq> ''Unclosed \"''"
  "take 10 (unknownTypeMessage t) \<noteq> ''Unclosed \"''"
  "take 10 (hostFunctionMessage t) \<noteq> ''Unclosed \"''"
  by (simp_all add: unexpectedEndMessage_def loopControlMessage_def unknownTypeMessage_def
      hostFunctionMessage_def)

lemma emits_checkUnclosedString: "emits (errorAt i) this (checkUnclosedString i ln this)"
  unfolding checkUnclosedString_def
  by (simp add: emits_addDiagnostic errorAt_def isUnclosedBlock_def)

lemma emits_checkBlockEnd:
  "checkBlockEnd i trimmed tws (st, il, this) = (st', il', this') \<Longrightarrow> emits (errorAt i) this this'"
  unfolding checkBlockEnd_def
  by (auto simp: emits_addDiagnostic errorAt_def isUnclosedBlock_def split: if_splits)

lemma emits_checkLoopControl: "emits (errorAt i) this (checkLoopControl i trimmed tws il this)"
  unfolding checkLoopControl_def
  by (simp add: emits_addDiagnostic errorAt_def isUnclosedBlock_def)

lemma emits_checkTypeAnnotation:
  "emits (errorAt i) this (checkTypeAnnotation i ln (trim ln) this)"
proof (cases "typeAnnotPattern (trim ln)")
  case None
  then show ?thesis
    by (simp add: checkTypeAnnotation_def)
next
  case (Some t)
  have "sublist t ln"
    by (rule sublist_trans [OF typeAnnotPattern_sublist [OF Some] sublist_trim])
  then have "0 \<le> indexOf ln t 0"
    by (rule indexOf_sublist)
  then show ?thesis
    unfolding checkTypeAnnotation_def
    by (simp add: Some Let_def emits_addDiagnostic errorAt_def isUnclosedBlock_def)
qed

lemma emits_checkHostFunctions: "emits (infoAt i) this (checkHostFunctions i ln tws this)"
proof -
  have "emits (infoAt i) s
     ((\<lambda>(idx, funcName) this.
        if funcName \<in> set keywordList then this
        else if funcName \<notin> set functionNames
        then let leadingWhitespace = length ln - length (trimStart ln);
                 pos = leadingWhitespace + idx
             in addDiagnostic i (int pos) i (int pos + int (length funcName))
                  (hostFunctionMessage funcName) Information this
        else this) x s)" for x s
    by (cases x) (simp add: Let_def emits_addDiagnostic infoAt_def isUnclosedBlock_def)
  then show ?thesis
    unfolding checkHostFunctions_def by (simp add: emits_fold)
qed

lemma stack_ok_checkBlockStart:
  "checkBlockStart i trimmed tws (st, il) = (st', il') \<Longrightarrow> i < n \<Longrightarrow> stack_ok n st \<Longrightarrow> stack_ok n st'"
  by (auto simp: checkBlockStart_def stack_ok_def split: if_splits option.splits)

lemma stack_ok_checkBlockEnd:
  "checkBlockEnd i trimmed tws (st, il, this) = (st', il', this') \<Longrightarrow> stack_ok n st \<Longrightarrow> stack_ok n st'"
  by (auto simp: checkBlockEnd_def stack_ok_def split: if_splits dest: in_set_butlastD)

lemma checkSyntaxLine_cases:
  assumes "checkSyntaxLine (i, ln) (st, il, this) = (st', il', this')"
  obtains (skip) "skipLine (trim ln)" "st' = st" "il' = il" "this' = this"
  | (run) st1 il1 this2 where "\<not> skipLine (trim ln)"
      "checkBlockStart i (trim ln) (replace_strings (replace_comment (trim ln))) (st, il) = (st1, il1)"
      "checkBlockEnd i (trim ln) (replace_strings (replace_comment (trim ln)))
         (st1, il1, checkUnclosedString i ln this) = (st', il', this2)"
      "this' = checkHostFunctions i ln (replace_strings (replace_comment (trim ln)))
         (checkTypeAnnotation i ln (trim ln)
           (checkLoopControl i (trim ln) (replace_strings (replace_comment (trim ln))) il' this2))"
  using assms
  by (auto simp: checkSyntaxLine_def Let_def split: if_splits prod.splits)

lemma emits_checkSyntaxLine:
  assumes "checkSyntaxLine (i, ln) (st, il, this) = (st', il', this')"
  shows "emits (syntaxDiag i) this this'"
  using assms
proof (cases rule: checkSyntaxLine_cases)
  case skip
  then show ?thesis by simp
next
  case (run st1 il1 this2)
  have e: "emits (syntaxDiag i) a b" if "emits (errorAt i) a b" for a b
    using that by (rule emits_mono) (simp add: syntaxDiag_def)
  have "emits (syntaxDiag i) this (checkUnclosedString i ln this)"
    by (rule e) (rule emits_checkUnclosedString)
  also have "emits (syntaxDiag i) (checkUnclosedString i ln this) this2"
    by (rule e) (rule emits_checkBlockEnd [OF run(3)])
  also have "emits (syntaxDiag i) this2
      (checkLoopControl i (trim ln) (replace_strings (replace_comment (trim ln))) il' this2)"
    by (rule e) (rule emits_checkLoopControl)
  also have "emits (syntaxDiag i) \<dots> (checkTypeAnnotation i ln (trim ln)
      (checkLoopControl i (trim ln) (replace_strings (replace_comment (trim ln))) il' this2))"
    by (rule e) (rule emits_checkTypeAnnotation)
  also have "emits (syntaxDiag i) \<dots> this'"
    unfolding run(4)
    by (rule emits_mono [OF emits_checkHostFunctions]) (simp add: syntaxDiag_def)
  finally show ?thesis .
qed

lemma stack_ok_checkSyntaxLine:
  assumes "checkSyntaxLine (i, ln) (st, il, this) = (st', il', this')" "i < n" "stack_ok n st"
  shows "stack_ok n st'"
  using assms(1)
proof (cases rule: checkSyntaxLine_cases)
  case skip
  with assms show ?thesis by simp
next
  case (run st1 il1 this2)
  from stack_ok_checkBlockStart [OF run(2) assms(2,3)] have "stack_ok n st1" .
  with run(3) show ?thesis
    by (rule stack_ok_checkBlockEnd)
qed

lemma checkSyntaxLines_invariant:
  assumes "checkSyntaxLines this = (st, il, this')"
  shows "stack_ok (length (lines this)) st
         \<and> emits (\<lambda>d. \<exists>i < length (lines this). syntaxDiag i d) this this'"
proof -
  let ?n = "length (lines this)"
  let ?Q = "\<lambda>d. \<exists>i < ?n. syntaxDiag i d"
  let ?P = "\<lambda>(st, il :: int, a). stack_ok ?n st \<and> emits ?Q this a"
  have "?P (fold checkSyntaxLine (enumerate 0 (lines this)) ([], 0, this))"
  proof (rule fold_invariant)
    show "?P ([], 0, this)"
      by (simp add: stack_ok_def)
  next
    fix x s
    assume x: "x \<in> set (enumerate 0 (lines this))" and s: "?P s"
    obtain i ln where xi: "x = (i, ln)" by (cases x)
    obtain st0 il0 a0 where s0: "s = (st0, il0, a0)" by (cases s)
    obtain st1 il1 a1 where r: "checkSyntaxLine (i, ln) (st0, il0, a0) = (st1, il1, a1)"
      by (cases "checkSyntaxLine (i, ln) (st0, il0, a0)")
    from x xi have i: "i < ?n"
      by (simp add: in_set_enumerate_eq)
    from s s0 have st0: "stack_ok ?n st0" and a0: "emits ?Q this a0"
      by simp_all
    have "stack_ok ?n st1"
      by (rule stack_ok_checkSyntaxLine [OF r i st0])
    moreover have "emits ?Q a0 a1"
      by (rule emits_mono [OF emits_checkSyntaxLine [OF r]]) (use i in blast)
    with a0 have "emits ?Q this a1"
      by (rule emits_trans)
    ultimately show "?P (checkSyntaxLine x s)"
      by (simp add: xi s0 r)
  qed
  with assms show ?thesis
    by (simp add: checkSyntaxLines_def)
qed

lemma checkSyntax_Inr: "\<exists>this'. checkSyntax this = Inr this'"
proof -
  obtain st il a where r: "checkSyntaxLines this = (st, il, a)"
    by (cases "checkSyntaxLines this")
  from checkSyntaxLines_invariant [OF r]
  have st: "stack_ok (length (lines this)) st" and "lines a = lines this"
    by (auto dest: emits_fields)
  then have "st \<noteq> [] \<Longrightarrow> block_line (last st) < length (lines a)"
    by (simp add: stack_ok_def)
  then show ?thesis
    by (auto simp: checkSyntax_def r Let_def)
qed

lemma pushes_refl [simp]: "pushes Q this this"
  by (auto simp: pushes_def intro: exI [of _ "[]"])

lemma pushes_trans [trans]: "pushes Q a b \<Longrightarrow> pushes Q b c \<Longrightarrow> pushes Q a c"
  unfolding pushes_def
proof (elim exE conjE)
  fix n1 n2
  assume "b = a\<lparr>symbols := symbols a @ n1\<rparr>" "c = b\<lparr>symbols := symbols b @ n2\<rparr>"
    and q: "\<forall>d \<in> set n1. Q d" "\<forall>d \<in> set n2. Q d"
  then have "c = a\<lparr>symbols := symbols a @ (n1 @ n2)\<rparr>"
    by simp
  moreover from q have "\<forall>d \<in> set (n1 @ n2). Q d"
    by auto
  ultimately show "\<exists>new. c = a\<lparr>symbols := symbols a @ new\<rparr> \<and> (\<forall>d \<in> set new. Q d)"
    by blast
qed

lemma pushes_pushSymbol:
  "Q \<lparr>sym_name = nm, sym_type = ty, sym_line = ln, sym_character = ch\<rparr>
     \<Longrightarrow> pushes Q this (pushSymbol nm ty ln ch this)"
  by (auto simp: pushes_def pushSymbol_def
      intro!: exI [of _ "[\<lparr>sym_name = nm, sym_type = ty, sym_line = ln, sym_character = ch\<rparr>]"])

lemma pushes_fields:
  "pushes Q a b \<Longrightarrow> lines b = lines a \<and> options b = options a \<and> diagnostics b = diagnostics a"
  by (auto simp: pushes_def)

lemma pushes_fold:
  assumes "\<And>x s. x \<in> set xs \<Longrightarrow> pushes Q s (f x s)"
  shows "pushes Q s (fold f xs s)"
  using assms
proof (induction xs arbitrary: s)
  case Nil
  show ?case by simp
next
  case (Cons x xs)
  have "pushes Q s (f x s)"
    by (rule Cons.prems) simp
  moreover have "pushes Q (f x s) (fold f xs (f x s))"
    by (rule Cons.IH) (simp add: Cons.prems)
  ultimately show ?case
    by (simp add: pushes_trans)
qed

lemma pushes_True_pushSymbol [simp]: "pushes (\<lambda>s. True) this (pushSymbol nm ty ln ch this)"
  by (rule pushes_pushSymbol) simp

lemma pushes_extractVarSymbols:
  "pushes (\<lambda>s. True) this (extractVarSymbols i ln trimmed this)"
  unfolding extractVarSymbols_def
proof (rule pushes_fold)
  fix x :: "nat \<times> string \<times> string option" and s
  show "pushes (\<lambda>s. True) s
     ((\<lambda>(idx, varName, varType) this.
         pushSymbol varName varType i (indexOf ln varName idx) this) x s)"
    by (cases x) simp
qed

lemma pushes_extractForeachSymbol:
  "pushes (\<lambda>s. True) this (extractForeachSymbol i ln trimmed this)"
  unfolding extractForeachSymbol_def
  by (simp split: option.splits)

lemma pushes_extractPropSymbols:
  "pushes (\<lambda>s. True) this (snd (extractPropSymbols i ln trimmed (seen, this)))"
proof -
  let ?P = "\<lambda>(seen :: string set, a). pushes (\<lambda>s. True) this a"
  have "?P (extractPropSymbols i ln trimmed (seen, this))"
    unfolding extractPropSymbols_def
  proof (rule fold_invariant)
    show "?P (seen, this)" by simp
  next
    fix x :: "nat \<times> string" and s :: "string set \<times> DocumentAnalyzer"
    assume "?P s"
    then show "?P ((\<lambda>(idx, propPath) (seenProps, this).
            if propPath \<notin> seenProps
            then (insert propPath seenProps,
                  pushSymbol propPath (Some ''property'') i (indexOf ln propPath 0) this)
            else (seenProps, this)) x s)"
      by (cases x; cases s) (auto intro: pushes_trans [OF _ pushes_True_pushSymbol])
  qed
  then show ?thesis
    by (simp add: case_prod_beta)
qed

lemma pushes_extractSymbols: "pushes (\<lambda>s. True) this (extractSymbols this)"
proof -
  let ?P = "\<lambda>(seen :: string set, a). pushes (\<lambda>s. True) this a"
  have "?P (fold extractSymbolsLine (enumerate 0 (lines this)) ({}, this))"
  proof (rule fold_invariant)
    show "?P ({}, this)" by simp
  next
    fix x :: "nat \<times> string" and s :: "string set \<times> DocumentAnalyzer"
    assume p: "?P s"
    obtain i ln where x: "x = (i, ln)" by (cases x)
    obtain seen a where s: "s = (seen, a)" by (cases s)
    from p s have "pushes (\<lambda>s. True) this a" by simp
    also have "pushes (\<lambda>s. True) a (extractVarSymbols i ln (trim ln) a)"
      by (rule pushes_extractVarSymbols)
    also have "pushes (\<lambda>s. True) \<dots> (extractForeachSymbol i ln (trim ln) (extractVarSymbols i ln (trim ln) a))"
      by (rule pushes_extractForeachSymbol)
    also have "pushes (\<lambda>s. True) \<dots> (snd (extractPropSymbols i ln (trim ln)
        (seen, extractForeachSymbol i ln (trim ln) (extractVarSymbols i ln (trim ln) a))))"
      by (rule pushes_extractPropSymbols)
    finally show "?P (extractSymbolsLine x s)"
      using p by (simp add: x s extractSymbolsLine_def Let_def case_prod_beta)
  qed
  then show ?thesis
    by (simp add: extractSymbols_def case_prod_beta)
qed

lemma not_unclosed_undefined [simp]:
  "take 10 (undefinedVariableMessage v) \<noteq> ''Unclosed \"''"
  by (simp add: undefinedVariableMessage_def)

lemma emits_validateIdentifier:
  "emits (warningAt i) this (validateIdentifier declaredVars i lwc x this)"
  unfolding validateIdentifier_def
  by (cases x) (simp add: Let_def emits_addDiagnostic warningAt_def isUnclosedBlock_def)

lemma emits_validateSemanticsLine:
  "emits (warningAt i) this (validateSemanticsLine declaredVars (i, ln) this)"
  unfolding validateSemanticsLine_def
  by (simp add: Let_def emits_fold emits_validateIdentifier)

lemma emits_validateSemantics:
  "emits (\<lambda>d. \<exists>i < length (lines this). warningAt i d) this (validateSemantics this)"
  unfolding validateSemantics_def Let_def
proof (rule emits_fold)
  fix x :: "nat \<times> string" and s
  assume x: "x \<in> set (enumerate 0 (lines this))"
  obtain i ln where xi: "x = (i, ln)" by (cases x)
  from x xi have i: "i < length (lines this)"
    by (simp add: in_set_enumerate_eq)
  show "emits (\<lambda>d. \<exists>i < length (lines this). warningAt i d) s
     (validateSemanticsLine (insert ''Data'' (set (map sym_name (symbols this)))) x s)"
    unfolding xi
    by (rule emits_mono [OF emits_validateSemanticsLine]) (use i in blast)
qed

lemma checkSyntax_emits:
  assumes "checkSyntax this = Inr this'"
  shows "emits (\<lambda>d. \<exists>i < length (lines this). diag_at i d) this this'"
proof -
  let ?n = "length (lines this)"
  obtain st il a where r: "checkSyntaxLines this = (st, il, a)"
    by (cases "checkSyntaxLines this")
  from checkSyntaxLines_invariant [OF r]
  have st: "stack_ok ?n st" and e: "emits (\<lambda>d. \<exists>i < ?n. syntaxDiag i d) this a"
    by simp_all
  have e': "emits (\<lambda>d. \<exists>i < ?n. diag_at i d) this a"
    by (rule emits_mono [OF e]) (auto simp: syntaxDiag_def errorAt_def infoAt_def)
  show ?thesis
  proof (cases "st = []")
    case True
    with assms r e' show ?thesis
      by (simp add: checkSyntax_def)
  next
    case False
    with st have l: "block_line (last st) < ?n"
      by (simp add: stack_ok_def)
    from e have la: "lines a = lines this"
      by (auto dest: emits_fields)
    from assms r False l la
    have "this' = addDiagnostic (block_line (last st)) 0 (block_line (last st))
        (int (length (lines a ! block_line (last st))))
        (unclosedBlockMessage (block_type (last st))) Error a"
      by (simp add: checkSyntax_def Let_def)
    moreover have "emits (\<lambda>d. \<exists>i < ?n. diag_at i d) a \<dots>"
      by (rule emits_addDiagnostic) (use l in simp)
    ultimately show ?thesis
      using e' by (simp add: emits_trans)
  qed
qed

lemma analyze_Inr:
  "analyze this = Inr (ds, this') \<longleftrightarrow>
     (\<exists>a. checkSyntax (this\<lparr>diagnostics := [], symbols := []\<rparr>) = Inr a
        \<and> this' = validateSemantics (extractSymbols a) \<and> ds = diagnostics this')"
  by (auto simp: analyze_def Let_def split: sum.splits)

lemma map_toLowerCase_functionNames: "map toLowerCase functionNames = lowerFunctionNames"
  by code_simp

lemma matchesFunctionName_code [code]:
  "matchesFunctionName varName = (toLowerCase varName \<in> set lowerFunctionNames)"
  unfolding matchesFunctionName_def map_toLowerCase_functionNames [symmetric] by (auto intro: rev_image_eqI)

lemma analyzeText_Inr:
  "analyzeText txt opts = Inr (ds, syms) \<Longrightarrow>
     \<exists>this'. analyze (new_DocumentAnalyzer txt [] opts) = Inr (ds, this') \<and> symbols this' = syms"
  by (cases "analyze (new_DocumentAnalyzer txt [] opts)") (auto simp: analyzeText_def)

lemma emits_subset: "emits Q a b \<Longrightarrow> set (diagnostics a) \<subseteq> set (diagnostics b)"
  by (auto simp: emits_def)

lemma fold_reaches:
  assumes "x \<in> set xs" and "\<And>s. P (f x s)" and "\<And>y s. P s \<Longrightarrow> P (f y s)"
  shows "P (fold f xs s)"
  using assms(1)
proof (induction xs arbitrary: s)
  case Nil
  then show ?case by simp
next
  case (Cons y ys)
  show ?case
  proof (cases "x \<in> set ys")
    case True
    then show ?thesis
      by (simp add: Cons.IH)
  next
    case False
    with Cons.prems have "y = x" by simp
    then have "P (f y s)"
      by (simp add: assms(2))
    then have "P (fold f ys (f y s))"
      by (rule fold_invariant) (rule assms(3))
    then show ?thesis by simp
  qed
qed

lemma checkUnclosedString_odd:
  "odd (countQuotes ln) \<Longrightarrow>
     unclosedStringDiagnostic i ln \<in> set (diagnostics (checkUnclosedString i ln this))"
  by (auto simp: checkUnclosedString_def addDiagnostic_def unclosedStringDiagnostic_def
      mkDiagnostic_def odd_iff_mod_2_eq_one)

lemma checkSyntaxLine_odd:
  assumes "\<not> skipLine (trim ln)" and "odd (countQuotes ln)"
  shows "unclosedStringDiagnostic i ln \<in> set (diagnostics (snd (snd (checkSyntaxLine (i, ln) s))))"
proof -
  obtain st il a where s: "s = (st, il, a)" by (cases s)
  obtain st' il' a' where r: "checkSyntaxLine (i, ln) (st, il, a) = (st', il', a')"
    by (cases "checkSyntaxLine (i, ln) (st, il, a)")
  from r show ?thesis
  proof (cases rule: checkSyntaxLine_cases)
    case skip
    with assms show ?thesis by simp
  next
    case (run st1 il1 this2)
    let ?tws = "replace_strings (replace_comment (trim ln))"
    have "unclosedStringDiagnostic i ln \<in> set (diagnostics (checkUnclosedString i ln a))"
      by (rule checkUnclosedString_odd [OF assms(2)])
    also have "\<dots> \<subseteq> set (diagnostics this2)"
      by (rule emits_subset [OF emits_checkBlockEnd [OF run(3)]])
    also have "\<dots> \<subseteq> set (diagnostics (checkLoopControl i (trim ln) ?tws il' this2))"
      by (rule emits_subset [OF emits_checkLoopControl])
    also have "\<dots> \<subseteq> set (diagnostics (checkTypeAnnotation i ln (trim ln)
        (checkLoopControl i (trim ln) ?tws il' this2)))"
      by (rule emits_subset [OF emits_checkTypeAnnotation])
    also have "\<dots> \<subseteq> set (diagnostics a')"
      unfolding run(4) by (rule emits_subset [OF emits_checkHostFunctions])
    finally show ?thesis
      by (simp add: s r)
  qed
qed

lemma checkSyntaxLines_odd:
  assumes "i < length (lines this)" and "\<not> skipLine (trim (lines this ! i))"
    and "odd (countQuotes (lines this ! i))"
  shows "unclosedStringDiagnostic i (lines this ! i)
           \<in> set (diagnostics (snd (snd (checkSyntaxLines this))))"
  unfolding checkSyntaxLines_def
proof (rule fold_reaches [where x = "(i, lines this ! i)"])
  show "(i, lines this ! i) \<in> set (enumerate 0 (lines this))"
    using assms(1) by (simp add: in_set_enumerate_eq)
next
  fix s :: "BlockEntry list \<times> int \<times> DocumentAnalyzer"
  show "unclosedStringDiagnostic i (lines this ! i)
          \<in> set (diagnostics (snd (snd (checkSyntaxLine (i, lines this ! i) s))))"
    by (rule checkSyntaxLine_odd [OF assms(2,3)])
next
  fix y :: "nat \<times> string" and s :: "BlockEntry list \<times> int \<times> DocumentAnalyzer"
  assume d: "unclosedStringDiagnostic i (lines this ! i) \<in> set (diagnostics (snd (snd s)))"
  obtain j ln where y: "y = (j, ln)" by (cases y)
  obtain st il a where s: "s = (st, il, a)" by (cases s)
  obtain st' il' a' where r: "checkSyntaxLine (j, ln) (st, il, a) = (st', il', a')"
    by (cases "checkSyntaxLine (j, ln) (st, il, a)")
  from emits_subset [OF emits_checkSyntaxLine [OF r]] d
  show "unclosedStringDiagnostic i (lines this ! i)
          \<in> set (diagnostics (snd (snd (checkSyntaxLine y s))))"
    by (auto simp: y s r)
qed

lemma checkSyntax_subset:
  assumes "checkSyntax this = Inr this'"
  shows "set (diagnostics (snd (snd (checkSyntaxLines this)))) \<subseteq> set (diagnostics this')"
  using assms
  by (auto simp: checkSyntax_def addDiagnostic_def Let_def split: prod.splits if_splits)



lemma infos_append [simp]: "infos (xs @ ys) = infos xs @ infos ys"
  by (simp add: infos_def)

lemma infos_addDiagnostic [simp]:
  "infos (diagnostics (addDiagnostic sl sc el ec msg sev a))
   = infos (diagnostics a) @ (if sev = Information then [mkDiagnostic sl sc el ec msg sev] else [])"
  by (simp add: infos_def addDiagnostic_def mkDiagnostic_def)













lemma isUnclosedBlock_unclosedBlockMessage [simp]:
  "isUnclosedBlock (mkDiagnostic sl sc el ec (unclosedBlockMessage t) sev)"
  by (simp add: isUnclosedBlock_def unclosedBlockMessage_def)


lemma not_word_dot [simp]: "\<not> is_word (CHR ''.'')"
  by (simp add: is_word_def is_alnum_def is_lower_def is_upper_def is_digit_def)

lemma many1_all: "many1 P s = Some (a, r) \<Longrightarrow> \<forall>c \<in> set a. P c"
  by (auto simp: many1_def split: if_splits dest: set_takeWhileD)

lemma many1_word_not_dotted: "many1 is_word s = Some (a, r) \<Longrightarrow> \<not> dotted a"
  by (auto simp: dotted_def dest!: many1_all)

lemma dotted_segments_dotted: "dotted_segments s \<noteq> [] \<Longrightarrow> dotted (dotted_segments s)"
  by (cases s rule: dotted_segments.cases) (auto simp: dotted_def split: if_splits)

lemma propAssignPattern_dotted: "propAssignPattern pw s = Some (p, n) \<Longrightarrow> dotted p"
proof -
  assume "propAssignPattern pw s = Some (p, n)"
  then obtain c cs where "dotted_segments (dropWhile is_word cs) \<noteq> []"
    and "p = c # takeWhile is_word cs @ dotted_segments (dropWhile is_word cs)"
    by (auto simp: propAssignPattern_def Let_def split: if_splits list.splits bind_splits)
  with dotted_segments_dotted show ?thesis
    by (auto simp: dotted_def)
qed

lemma propAssignMatches_dotted:
  "(idx, p) \<in> set (propAssignMatches s k) \<Longrightarrow> dotted p"
proof (induction s k rule: propAssignMatches.induct)
  case (1 s lastIndex)
  show ?case
  proof (cases "exec propAssignPattern s lastIndex")
    case None
    with "1.prems" show ?thesis
      by (simp add: propAssignMatches.simps [of s lastIndex])
  next
    case (Some r)
    obtain i q n where r: "r = (i, q, n)" by (cases r)
    from "1.prems" Some r
    have "(idx, p) = (i, q) \<or> (idx, p) \<in> set (propAssignMatches s (i + n))"
      by (simp add: propAssignMatches.simps [of s lastIndex])
    then show ?thesis
    proof
      assume "(idx, p) = (i, q)"
      moreover from Some r have "exec propAssignPattern s lastIndex = Some (i, q, n)"
        by simp
      from exec_Some [OF this] obtain pw' where "propAssignPattern pw' (drop i s) = Some (q, n)"
        by blast
      ultimately show ?thesis
        using propAssignPattern_dotted by simp
    next
      assume "(idx, p) \<in> set (propAssignMatches s (i + n))"
      then show ?thesis
        by (rule "1.IH" [OF Some r [symmetric] refl])
    qed
  qed
qed

lemma varPattern_not_dotted: "varPattern pw s = Some ((v, ty), n) \<Longrightarrow> \<not> dotted v"
proof -
  assume "varPattern pw s = Some ((v, ty), n)"
  then obtain r2 r3 where "many1 is_word r2 = Some (v, r3)"
    by (auto simp: varPattern_def split: if_splits bind_splits option.splits)
  then show ?thesis
    by (rule many1_word_not_dotted)
qed

lemma varMatches_not_dotted:
  "(idx, v, ty) \<in> set (varMatches s k) \<Longrightarrow> \<not> dotted v"
proof (induction s k rule: varMatches.induct)
  case (1 s lastIndex)
  show ?case
  proof (cases "exec varPattern s lastIndex")
    case None
    with "1.prems" show ?thesis
      by (simp add: varMatches.simps [of s lastIndex])
  next
    case (Some r)
    obtain i g n where r: "r = (i, g, n)" by (cases r)
    from "1.prems" Some r
    have "(idx, v, ty) = (i, g) \<or> (idx, v, ty) \<in> set (varMatches s (i + n))"
      by (simp add: varMatches.simps [of s lastIndex])
    then show ?thesis
    proof
      assume "(idx, v, ty) = (i, g)"
      moreover from Some r have "exec varPattern s lastIndex = Some (i, g, n)"
        by simp
      from exec_Some [OF this] obtain pw' where "varPattern pw' (drop i s) = Some (g, n)"
        by blast
      ultimately show ?thesis
        using varPattern_not_dotted by auto
    next
      assume "(idx, v, ty) \<in> set (varMatches s (i + n))"
      then show ?thesis
        by (rule "1.IH" [OF Some r [symmetric] refl])
    qed
  qed
qed

lemma foreachPattern_not_dotted: "foreachPattern pw s = Some (v, n) \<Longrightarrow> \<not> dotted v"
proof -
  assume "foreachPattern pw s = Some (v, n)"
  then obtain r2 r3 where "many1 is_word r2 = Some (v, r3)"
    by (auto simp: foreachPattern_def split: if_splits bind_splits)
  then show ?thesis
    by (rule many1_word_not_dotted)
qed

lemma pushes_named:
  assumes "pushes Q a b" and "\<And>s. Q s \<Longrightarrow> sym_name s \<noteq> p"
  shows "named p (symbols b) = named p (symbols a)"
proof -
  from assms(1) obtain new where "symbols b = symbols a @ new" and "\<forall>s \<in> set new. Q s"
    by (auto simp: pushes_def)
  moreover from this assms(2) have "filter (\<lambda>s. sym_name s = p) new = []"
    by (auto simp: filter_empty_conv)
  ultimately show ?thesis
    by (simp add: named_def)
qed

lemma pushes_extractVarSymbols_plain:
  "pushes (\<lambda>s. \<not> dotted (sym_name s)) this (extractVarSymbols i ln trimmed this)"
  unfolding extractVarSymbols_def
proof (rule pushes_fold)
  fix x :: "nat \<times> string \<times> string option" and s
  assume x: "x \<in> set (varMatches trimmed 0)"
  obtain idx v ty where xi: "x = (idx, v, ty)" by (cases x)
  from x xi have "\<not> dotted v"
    using varMatches_not_dotted by simp
  then show "pushes (\<lambda>s. \<not> dotted (sym_name s)) s
     ((\<lambda>(idx, varName, varType) this.
         pushSymbol varName varType i (indexOf ln varName idx) this) x s)"
    by (simp add: xi pushes_pushSymbol)
qed

lemma pushes_extractForeachSymbol_plain:
  "pushes (\<lambda>s. \<not> dotted (sym_name s)) this (extractForeachSymbol i ln trimmed this)"
proof (cases "exec foreachPattern trimmed 0")
  case None
  then show ?thesis
    by (simp add: extractForeachSymbol_def)
next
  case (Some r)
  obtain idx v n where r: "r = (idx, v, n)" by (cases r)
  from Some r have "exec foreachPattern trimmed 0 = Some (idx, v, n)"
    by simp
  from exec_Some [OF this] obtain pw' where "foreachPattern pw' (drop idx trimmed) = Some (v, n)"
    by blast
  then have "\<not> dotted v"
    by (rule foreachPattern_not_dotted)
  then show ?thesis
    by (simp add: extractForeachSymbol_def Some r pushes_pushSymbol)
qed

lemma named_pushSymbol [simp]:
  "named p (symbols (pushSymbol nm ty l ch a))
   = named p (symbols a)
       @ (if nm = p then [\<lparr>sym_name = nm, sym_type = ty, sym_line = l, sym_character = ch\<rparr>] else [])"
  by (simp add: named_def pushSymbol_def)

lemma propLoop_named:
  assumes "fold (\<lambda>(idx, propPath) (seenProps, this).
            if propPath \<notin> seenProps
            then (insert propPath seenProps,
                  pushSymbol propPath (Some ''property'') i (indexOf ln propPath 0) this)
            else (seenProps, this)) ms (seen, a) = (seen', a')"
  shows "seen' = seen \<union> set (map snd ms)
       \<and> named p (symbols a')
           = named p (symbols a)
               @ (if p \<notin> seen \<and> p \<in> set (map snd ms) then [propertySymbol i ln p] else [])"
  using assms
proof (induction ms arbitrary: seen a)
  case Nil
  then show ?case by simp
next
  case (Cons m ms)
  obtain idx q where m: "m = (idx, q)" by (cases m)
  show ?case
  proof (cases "q \<in> seen")
    case True
    with Cons.prems m have "fold (\<lambda>(idx, propPath) (seenProps, this).
            if propPath \<notin> seenProps
            then (insert propPath seenProps,
                  pushSymbol propPath (Some ''property'') i (indexOf ln propPath 0) this)
            else (seenProps, this)) ms (seen, a) = (seen', a')"
      by simp
    from Cons.IH [OF this] True show ?thesis
      by (auto simp: m)
  next
    case False
    with Cons.prems m have "fold (\<lambda>(idx, propPath) (seenProps, this).
            if propPath \<notin> seenProps
            then (insert propPath seenProps,
                  pushSymbol propPath (Some ''property'') i (indexOf ln propPath 0) this)
            else (seenProps, this)) ms
          (insert q seen, pushSymbol q (Some ''property'') i (indexOf ln q 0) a) = (seen', a')"
      by simp
    from Cons.IH [OF this] False show ?thesis
      by (auto simp: m propertySymbol_def)
  qed
qed

lemma extractSymbolsLine_named:
  assumes "extractSymbolsLine (i, ln) (seen, a) = (seen', a')" and "dotted p"
  shows "seen' = seen \<union> set (assignedPaths ln)
       \<and> named p (symbols a')
           = named p (symbols a)
               @ (if p \<notin> seen \<and> p \<in> set (assignedPaths ln) then [propertySymbol i ln p] else [])"
proof (cases "skipLine (trim ln)")
  case True
  with assms(1) show ?thesis
    by (simp add: extractSymbolsLine_def assignedPaths_def)
next
  case False
  let ?b = "extractForeachSymbol i ln (trim ln) (extractVarSymbols i ln (trim ln) a)"
  have "named p (symbols (extractVarSymbols i ln (trim ln) a)) = named p (symbols a)"
    by (rule pushes_named [OF pushes_extractVarSymbols_plain]) (use assms(2) in auto)
  moreover have "named p (symbols ?b) = named p (symbols (extractVarSymbols i ln (trim ln) a))"
    by (rule pushes_named [OF pushes_extractForeachSymbol_plain]) (use assms(2) in auto)
  ultimately have b: "named p (symbols ?b) = named p (symbols a)"
    by simp
  from assms(1) False have "extractPropSymbols i ln (trim ln) (seen, ?b) = (seen', a')"
    by (simp add: extractSymbolsLine_def Let_def)
  from propLoop_named [OF this [unfolded extractPropSymbols_def]] b False show ?thesis
    by (simp add: assignedPaths_def)
qed

lemma fold_extract_absent:
  assumes "fold extractSymbolsLine xs (seen, a) = (seen', a')" and "dotted p"
    and "\<forall>x \<in> set xs. p \<notin> set (assignedPaths (snd x))"
  shows "(p \<in> seen' \<longleftrightarrow> p \<in> seen) \<and> named p (symbols a') = named p (symbols a)"
  using assms(1,3)
proof (induction xs arbitrary: seen a)
  case Nil
  then show ?case by simp
next
  case (Cons x xs)
  obtain j ln where x: "x = (j, ln)" by (cases x)
  obtain seen1 a1 where r: "extractSymbolsLine (j, ln) (seen, a) = (seen1, a1)"
    by (cases "extractSymbolsLine (j, ln) (seen, a)")
  from Cons.prems(2) x have n: "p \<notin> set (assignedPaths ln)"
    by simp
  from extractSymbolsLine_named [OF r assms(2)] n
  have 1: "(p \<in> seen1 \<longleftrightarrow> p \<in> seen)" "named p (symbols a1) = named p (symbols a)"
    by auto
  from Cons.prems(1) have "fold extractSymbolsLine xs (seen1, a1) = (seen', a')"
    by (simp add: x r)
  from Cons.IH [OF this] Cons.prems(2) 1 show ?case
    by simp
qed

lemma fold_extract_seen:
  assumes "fold extractSymbolsLine xs (seen, a) = (seen', a')" and "dotted p" and "p \<in> seen"
  shows "p \<in> seen' \<and> named p (symbols a') = named p (symbols a)"
  using assms(1,3)
proof (induction xs arbitrary: seen a)
  case Nil
  then show ?case by simp
next
  case (Cons x xs)
  obtain j ln where x: "x = (j, ln)" by (cases x)
  obtain seen1 a1 where r: "extractSymbolsLine (j, ln) (seen, a) = (seen1, a1)"
    by (cases "extractSymbolsLine (j, ln) (seen, a)")
  from extractSymbolsLine_named [OF r assms(2)] Cons.prems(2)
  have 1: "p \<in> seen1" "named p (symbols a1) = named p (symbols a)"
    by auto
  from Cons.prems(1) have "fold extractSymbolsLine xs (seen1, a1) = (seen', a')"
    by (simp add: x r)
  from Cons.IH [OF this 1(1)] 1(2) show ?case
    by simp
qed

lemma enumerate_split:
  assumes "i < length xs"
  shows "enumerate 0 xs = enumerate 0 (take i xs) @ (i, xs ! i) # enumerate (Suc i) (drop (Suc i) xs)"
proof -
  have "enumerate 0 xs = enumerate 0 (take i xs @ xs ! i # drop (Suc i) xs)"
    using id_take_nth_drop [OF assms] by simp
  also have "\<dots> = enumerate 0 (take i xs) @ enumerate i (xs ! i # drop (Suc i) xs)"
    using assms by (simp add: enumerate_append_eq min_absorb2)
  finally show ?thesis by simp
qed

lemma extractSymbols_first_assignment:
  assumes "i < length (lines a)" and "p \<in> set (assignedPaths (lines a ! i))"
    and "\<forall>j < i. p \<notin> set (assignedPaths (lines a ! j))"
  shows "named p (symbols (extractSymbols a))
         = named p (symbols a) @ [propertySymbol i (lines a ! i) p]"
proof -
  let ?L = "lines a"
  let ?pre = "enumerate 0 (take i ?L)"
  let ?post = "enumerate (Suc i) (drop (Suc i) ?L)"
  from assms(2) obtain idx where "(idx, p) \<in> set (propAssignMatches (trim (?L ! i)) 0)"
    by (auto simp: assignedPaths_def split: if_splits)
  then have d: "dotted p"
    by (rule propAssignMatches_dotted)
  obtain s1 a1 where 1: "fold extractSymbolsLine ?pre ({}, a) = (s1, a1)"
    by (cases "fold extractSymbolsLine ?pre ({}, a)")
  obtain s2 a2 where 2: "extractSymbolsLine (i, ?L ! i) (s1, a1) = (s2, a2)"
    by (cases "extractSymbolsLine (i, ?L ! i) (s1, a1)")
  obtain s3 a3 where 3: "fold extractSymbolsLine ?post (s2, a2) = (s3, a3)"
    by (cases "fold extractSymbolsLine ?post (s2, a2)")
  have "\<forall>x \<in> set ?pre. p \<notin> set (assignedPaths (snd x))"
  proof
    fix x assume "x \<in> set ?pre"
    then have "fst x < i" and "snd x = ?L ! fst x"
      using assms(1) by (auto simp: in_set_enumerate_eq)
    with assms(3) show "p \<notin> set (assignedPaths (snd x))"
      by simp
  qed
  from fold_extract_absent [OF 1 d this]
  have p1: "p \<notin> s1" "named p (symbols a1) = named p (symbols a)"
    by simp_all
  from extractSymbolsLine_named [OF 2 d] p1 assms(2)
  have p2: "p \<in> s2" "named p (symbols a2) = named p (symbols a) @ [propertySymbol i (?L ! i) p]"
    by simp_all
  from fold_extract_seen [OF 3 d p2(1)] p2(2)
  have p3: "named p (symbols a3) = named p (symbols a) @ [propertySymbol i (?L ! i) p]"
    by simp
  have "fold extractSymbolsLine (enumerate 0 ?L) ({}, a) = (s3, a3)"
    by (simp add: enumerate_split [OF assms(1)] 1 2 3)
  then show ?thesis
    by (simp add: extractSymbols_def p3)
qed

lemma not_ws_quote [simp]: "\<not> is_ws (CHR 0x22)"
  by (simp add: is_ws_def)

lemma dropWhile_eq_Nil_conv': "dropWhile P xs = [] \<longleftrightarrow> (\<forall>x \<in> set xs. P x)"
  by (induction xs) auto

lemma trim_eq_Nil: "trim s = [] \<Longrightarrow> \<forall>c \<in> set s. is_ws c"
proof -
  assume "trim s = []"
  then have all: "\<forall>c \<in> set (dropWhile is_ws s). is_ws c"
    by (simp add: trim_def dropWhile_eq_Nil_conv')
  have "dropWhile is_ws s = []"
  proof (rule ccontr)
    assume n: "dropWhile is_ws s \<noteq> []"
    then have "\<not> is_ws (hd (dropWhile is_ws s))"
      by (rule hd_dropWhile)
    moreover from n have "hd (dropWhile is_ws s) \<in> set (dropWhile is_ws s)"
      by simp
    ultimately show False
      using all by blast
  qed
  then show ?thesis
    by (simp add: dropWhile_eq_Nil_conv')
qed

lemma odd_quotes_not_blank: "odd (countQuotes ln) \<Longrightarrow> trim ln \<noteq> []"
proof
  assume o: "odd (countQuotes ln)" and "trim ln = []"
  then have "\<forall>c \<in> set ln. is_ws c"
    by (simp add: trim_eq_Nil)
  then have "filter (\<lambda>c. c = CHR 0x22) ln = []"
    by (auto simp: filter_empty_conv)
  with o show False
    by (simp add: countQuotes_def)
qed

lemma var_age_int_facts:
  "trim ''var age: int'' = ''var age: int''"
  "\<not> skipLine ''var age: int''"
  "replace_strings (replace_comment ''var age: int'') = ''var age: int''"
  "countQuotes ''var age: int'' = 0"
  "\<not> test blockPattern ''var age: int''"
  "\<not> test endPattern ''var age: int''"
  "\<not> test loopControlPattern ''var age: int''"
  "varPrefixPattern ''var age: int''"
  "typeAnnotPattern ''var age: int'' = Some ''int''"
  "''int'' \<notin> set typeKeywords"
  "indexOf ''var age: int'' ''int'' 0 = 9"
  "funcCallMatches ''var age: int'' 0 = []"
  by code_simp+

lemma line_var_age_int:
  \<open>checkSyntaxLine (i, ''var age: int'') (st, il, this) =
     (st, il, addDiagnostic i 9 i 12
        ''Unknown type "int". Expected: number, string, boolean, object, or array'' Error this)\<close>
  by (simp add: checkSyntaxLine_def Let_def var_age_int_facts checkUnclosedString_def
      checkBlockStart_def checkBlockEnd_def checkLoopControl_def checkTypeAnnotation_def
      checkHostFunctions_def unknownTypeMessage_def)

lemma analyze_total: "\<exists>ds this'. analyze this = Inr (ds, this') \<and> ds = diagnostics this'"
proof -
  obtain a where "checkSyntax (this\<lparr>diagnostics := [], symbols := []\<rparr>) = Inr a"
    using checkSyntax_Inr by blast
  then show ?thesis
    by (simp add: analyze_Inr)
qed

lemma unclosed_string_lemma:
  assumes "analyze this = Inr (ds, this')"
    and "i < length (lines this)"
    and "\<not> skipLine (trim (lines this ! i))"
    and "odd (countQuotes (lines this ! i))"
  shows "mkDiagnostic i 0 i (int (length (lines this ! i))) ''Unclosed string literal'' Error \<in> set ds"
proof -
  let ?a0 = "this\<lparr>diagnostics := [], symbols := []\<rparr>"
  from assms(1) obtain a where a: "checkSyntax ?a0 = Inr a"
    and t: "this' = validateSemantics (extractSymbols a)" and ds: "ds = diagnostics this'"
    by (auto simp: analyze_Inr)
  have "unclosedStringDiagnostic i (lines this ! i)
          \<in> set (diagnostics (snd (snd (checkSyntaxLines ?a0))))"
    using checkSyntaxLines_odd [of i ?a0] assms(2-4) by simp
  also have "\<dots> \<subseteq> set (diagnostics a)"
    by (rule checkSyntax_subset [OF a])
  also have "diagnostics a = diagnostics (extractSymbols a)"
    using pushes_fields [OF pushes_extractSymbols [of a]] by simp
  also have "set \<dots> \<subseteq> set (diagnostics this')"
    unfolding t by (rule emits_subset [OF emits_validateSemantics])
  finally show ?thesis
    by (simp add: ds unclosedStringDiagnostic_def)
qed













lemma not_word_hash [simp]: "\<not> is_word (CHR ''#'')"
  by (simp add: is_word_def is_alnum_def is_lower_def is_upper_def is_digit_def)

lemma not_word_quote [simp]: "\<not> is_word (CHR 0x22)"
  by (simp add: is_word_def is_alnum_def is_lower_def is_upper_def is_digit_def)

lemma replace_strings_Nil_iff [simp]: "replace_strings s = [] \<longleftrightarrow> s = []"
  by (cases s) auto



lemma is_word_letters [simp]:
  "is_word (CHR ''i'')" "is_word (CHR ''f'')" "is_word (CHR ''w'')" "is_word (CHR ''h'')"
  "is_word (CHR ''l'')" "is_word (CHR ''e'')" "is_word (CHR ''o'')" "is_word (CHR ''r'')"
  "is_word (CHR ''a'')" "is_word (CHR ''c'')" "is_word (CHR ''s'')" "is_word (CHR ''t'')"
  "is_word (CHR ''n'')" "is_word (CHR ''d'')"
  by (simp_all add: is_word_def is_alnum_def is_lower_def)

lemma wordChars_keywords [simp]:
  "wordChars ''if''" "wordChars ''while''" "wordChars ''foreach''" "wordChars ''switch''"
  "wordChars ''end''"
  by (simp_all add: wordChars_def)

























lemma not_alnum_paren [simp]: "\<not> is_alnum (CHR ''('')"
  by (simp add: is_alnum_def is_lower_def is_upper_def is_digit_def)

lemma not_ws_paren [simp]: "\<not> is_ws (CHR ''('')"
  by (simp add: is_ws_def)

lemma not_upper_paren [simp]: "\<not> is_upper (CHR ''('')"
  by (simp add: is_upper_def)





















section \<open>The claims\<close>

lemma eval_exampleDocument:
  \<open>analyzeText (''var x = 5'' @ [CHR 0x0A] @ ''if x > 3 then'' @ [CHR 0x0A] @ ''  y = 10''
       @ [CHR 0x0A] @ ''end'') defaultOptions =
     Inr ([mkDiagnostic 2 2 2 3 ''Undefined variable "y"'' Warning],
          [\<lparr>sym_name = ''x'', sym_type = None, sym_line = 0, sym_character = 4\<rparr>])\<close>
  by code_simp

text \<open>
  C1. For the text \<open>var x = 5\<close>, \<open>if x > 3 then\<close>, \<open>  y = 10\<close>, \<open>end\<close> (four lines),
  \<open>analyze()\<close> leaves a symbol table holding the symbol \<open>x\<close> of the \<open>var\<close> declaration
  (line 0, column 4), and returns one diagnostic: the Warning \<open>Undefined variable "y"\<close>
  for the token \<open>y\<close> on the third line (line 2, columns 2 to 3).
\<close>

theorem example_document:
  \<open>\<exists>this'. analyze (new_DocumentAnalyzer
       (''var x = 5'' @ [CHR 0x0A] @ ''if x > 3 then'' @ [CHR 0x0A] @ ''  y = 10''
          @ [CHR 0x0A] @ ''end'') [] defaultOptions)
       = Inr ([mkDiagnostic 2 2 2 3 ''Undefined variable "y"'' Warning], this')
     \<and> fst (getSymbols this')
         = [\<lparr>sym_name = ''x'', sym_type = None, sym_line = 0, sym_character = 4\<rparr>]\<close>
  using analyzeText_Inr [OF eval_exampleDocument] by (auto simp: getSymbols_def)

lemma eval_string_then_call:
  \<open>analyzeText ''"abc" Foo()'' defaultOptions =
     Inr ([mkDiagnostic 0 3 0 6
             ''Referenced function "Foo" will need to be made available at runtime'' Information],
          [])\<close>
  by code_simp

lemma string_then_call_facts:
  \<open>take 3 (drop 3 ''"abc" Foo()'') = ''c" ''\<close>
  \<open>take 3 (drop 6 ''"abc" Foo()'') = ''Foo''\<close>
  \<open>stripped ''"abc" Foo()'' = ''"" Foo()''\<close>
  \<open>take 3 (drop 3 ''"" Foo()'') = ''Foo''\<close>
  by code_simp+

text \<open>
  C2 says that the positions of every diagnostic of the syntax pass index into the raw
  line. The unresolved-call note does not: its column is the leading white space of the
  raw line plus the match index in \<open>trimmedWithoutStrings\<close>, the copy in which every
  string literal has shrunk to \<open>""\<close>. On the line \<open>"abc" Foo()\<close> the note for \<open>Foo\<close> spans
  columns 3 to 6, where the raw line reads \<open>c" \<close>; \<open>Foo\<close> stands at columns 6 to 9 of the
  raw line and at columns 3 to 6 of the stripped copy.
\<close>

theorem host_note_position_example:
  \<open>analyzeText ''"abc" Foo()'' defaultOptions =
     Inr ([mkDiagnostic 0 3 0 6
             ''Referenced function "Foo" will need to be made available at runtime'' Information],
          [])
   \<and> take 3 (drop 3 ''"abc" Foo()'') = ''c" ''
   \<and> take 3 (drop 6 ''"abc" Foo()'') = ''Foo''
   \<and> take 3 (drop 3 (stripped ''"abc" Foo()'')) = ''Foo''\<close>
  using eval_string_then_call string_then_call_facts by simp

lemma eval_comment_quote: \<open>analyzeText ''# "'' defaultOptions = Inr ([], [])\<close>
  by code_simp

lemma comment_quote_facts:
  \<open>lines (new_DocumentAnalyzer ''# "'' [] defaultOptions) = [''# "'']\<close>
  \<open>countQuotes ''# "'' = 1\<close>
  by code_simp+

text \<open>
  C3 as stated fails on a comment line: the line \<open># "\<close> holds one quote character, and
  the pass skips it before it counts quotes, so \<open>analyze()\<close> returns no diagnostic.
\<close>

theorem comment_line_quote_counterexample:
  \<open>lines (new_DocumentAnalyzer ''# "'' [] defaultOptions) = [''# "'']
   \<and> countQuotes ''# "'' = 1
   \<and> analyzeText ''# "'' defaultOptions = Inr ([], [])\<close>
  using eval_comment_quote comment_quote_facts by simp

text \<open>
  C3, amended. For every line of the document that is not a comment line (its trimmed
  text does not start with \<open>#\<close>) and whose raw text holds an odd number of double quotes,
  \<open>analyze()\<close> returns the Error \<open>Unclosed string literal\<close> spanning columns 0 to the
  length of the line, whatever else the line holds.
\<close>

theorem unclosed_string_flagged:
  assumes "analyze this = Inr (ds, this')"
    and "i < length (lines this)"
    and "\<not> startsWith (trim (lines this ! i)) ''#''"
    and "odd (countQuotes (lines this ! i))"
  shows "mkDiagnostic i 0 i (int (length (lines this ! i))) ''Unclosed string literal'' Error \<in> set ds"
proof -
  from assms(3) odd_quotes_not_blank [OF assms(4)] have "\<not> skipLine (trim (lines this ! i))"
    by (simp add: skipLine_def)
  from unclosed_string_lemma [OF assms(1,2) this assms(4)] show ?thesis .
qed

lemma eval_unclosed_facts:
  \<open>lines (new_DocumentAnalyzer ''x = "'' [] defaultOptions) = [''x = "'']\<close>
  \<open>\<not> startsWith (trim ''x = "'') ''#''\<close>
  \<open>countQuotes ''x = "'' = 1\<close>
  by code_simp+

theorem unclosed_string_flagged_witness:
  \<open>\<exists>ds this'. analyze (new_DocumentAnalyzer ''x = "'' [] defaultOptions) = Inr (ds, this')
     \<and> lines (new_DocumentAnalyzer ''x = "'' [] defaultOptions) = [''x = "'']
     \<and> \<not> startsWith (trim ''x = "'') ''#''
     \<and> odd (countQuotes ''x = "'')
     \<and> mkDiagnostic 0 0 0 5 ''Unclosed string literal'' Error \<in> set ds\<close>
proof -
  let ?X = \<open>new_DocumentAnalyzer ''x = "'' [] defaultOptions\<close>
  from analyze_total obtain ds this' where a: "analyze ?X = Inr (ds, this')"
    by blast
  from unclosed_string_flagged [OF a, of 0] eval_unclosed_facts a show ?thesis
    by simp
qed







lemma eval_continue_breakfast:
  \<open>analyzeText ''continue breakfast'' defaultOptions =
     Inr ([mkDiagnostic 0 0 0 18 ''"break" can only be used inside loops'' Error,
           mkDiagnostic 0 9 0 18 ''Undefined variable "breakfast"'' Warning],
          [])\<close>
  by code_simp

lemma continue_breakfast_facts:
  \<open>exec loopControlPattern (stripped ''continue breakfast'') 0 = Some (0, ''continue'', 8)\<close>
  \<open>exec (keywordPattern [''break'']) (stripped ''continue breakfast'') 0 = None\<close>
  by code_simp+

text \<open>
  C5 says that a loop-control keyword found at loop depth 0 yields an Error naming that
  keyword. The message is chosen by \<open>trimmedWithoutStrings.includes('break')\<close>, a test
  for the substring, not for the keyword: on the line \<open>continue breakfast\<close> the keyword
  found is \<open>continue\<close> (the pattern for \<open>break\<close> alone finds nothing), and the Error
  names \<open>break\<close>.
\<close>

theorem continue_named_break_example:
  \<open>analyzeText ''continue breakfast'' defaultOptions =
     Inr ([mkDiagnostic 0 0 0 18 ''"break" can only be used inside loops'' Error,
           mkDiagnostic 0 9 0 18 ''Undefined variable "breakfast"'' Warning],
          [])
   \<and> exec loopControlPattern (stripped ''continue breakfast'') 0 = Some (0, ''continue'', 8)
   \<and> exec (keywordPattern [''break'']) (stripped ''continue breakfast'') 0 = None\<close>
  using eval_continue_breakfast continue_breakfast_facts by simp






text \<open>
  C7. Within one \<open>analyze()\<close> call, a dotted assignment path contributes exactly one
  symbol: if line \<open>i\<close> is the first line that assigns to the path \<open>p\<close>, the symbol table
  afterwards holds exactly one symbol named \<open>p\<close>, of type \<open>property\<close>, recorded at line \<open>i\<close>.
  Later assignments to \<open>p\<close> add nothing, and every other path gets its own symbol in the
  same way.
\<close>

theorem first_assignment_defines_property:
  assumes "analyze this = Inr (ds, this')"
    and "i < length (lines this)"
    and "p \<in> set (assignedPaths (lines this ! i))"
    and "\<forall>j < i. p \<notin> set (assignedPaths (lines this ! j))"
  shows "filter (\<lambda>s. sym_name s = p) (symbols this')
         = [\<lparr>sym_name = p, sym_type = Some ''property'', sym_line = i,
             sym_character = indexOf (lines this ! i) p 0\<rparr>]"
proof -
  let ?a0 = "this\<lparr>diagnostics := [], symbols := []\<rparr>"
  from assms(1) obtain a where a: "checkSyntax ?a0 = Inr a"
    and t: "this' = validateSemantics (extractSymbols a)"
    by (auto simp: analyze_Inr)
  from emits_fields [OF checkSyntax_emits [OF a]]
  have la: "lines a = lines this" and sa: "symbols a = []"
    by simp_all
  have "symbols this' = symbols (extractSymbols a)"
    unfolding t using emits_fields [OF emits_validateSemantics] by simp
  moreover have "named p (symbols (extractSymbols a))
      = named p (symbols a) @ [propertySymbol i (lines a ! i) p]"
    by (rule extractSymbols_first_assignment) (use assms(2-4) la in simp_all)
  ultimately show ?thesis
    by (simp add: named_def sa la propertySymbol_def)
qed

lemma eval_orders_facts:
  "lines (new_DocumentAnalyzer (''Data.orders = 1'' @ [CHR 0x0A] @ ''Data.orders = 2''
      @ [CHR 0x0A] @ ''Data.customers = 3'') [] defaultOptions)
     = [''Data.orders = 1'', ''Data.orders = 2'', ''Data.customers = 3'']"
  "assignedPaths ''Data.orders = 1'' = [''Data.orders'']"
  "assignedPaths ''Data.orders = 2'' = [''Data.orders'']"
  "assignedPaths ''Data.customers = 3'' = [''Data.customers'']"
  "indexOf ''Data.orders = 1'' ''Data.orders'' 0 = 0"
  "indexOf ''Data.customers = 3'' ''Data.customers'' 0 = 0"
  by code_simp+

theorem first_assignment_defines_property_witness:
  "\<exists>ds this'.
     analyze (new_DocumentAnalyzer (''Data.orders = 1'' @ [CHR 0x0A] @ ''Data.orders = 2''
        @ [CHR 0x0A] @ ''Data.customers = 3'') [] defaultOptions) = Inr (ds, this')
     \<and> map assignedPaths (lines (new_DocumentAnalyzer (''Data.orders = 1'' @ [CHR 0x0A]
           @ ''Data.orders = 2'' @ [CHR 0x0A] @ ''Data.customers = 3'') [] defaultOptions))
         = [[''Data.orders''], [''Data.orders''], [''Data.customers'']]
     \<and> filter (\<lambda>s. sym_name s = ''Data.orders'') (symbols this')
         = [\<lparr>sym_name = ''Data.orders'', sym_type = Some ''property'', sym_line = 0,
             sym_character = 0\<rparr>]
     \<and> filter (\<lambda>s. sym_name s = ''Data.customers'') (symbols this')
         = [\<lparr>sym_name = ''Data.customers'', sym_type = Some ''property'', sym_line = 2,
             sym_character = 0\<rparr>]"
proof -
  let ?X = "new_DocumentAnalyzer (''Data.orders = 1'' @ [CHR 0x0A] @ ''Data.orders = 2''
      @ [CHR 0x0A] @ ''Data.customers = 3'') [] defaultOptions"
  note L = eval_orders_facts(1)
  from analyze_total obtain ds this' where a: "analyze ?X = Inr (ds, this')"
    by blast
  have 1: "filter (\<lambda>s. sym_name s = ''Data.orders'') (symbols this')
         = [\<lparr>sym_name = ''Data.orders'', sym_type = Some ''property'', sym_line = 0,
             sym_character = 0\<rparr>]"
    using first_assignment_defines_property [OF a, of 0 "''Data.orders''", unfolded L]
    by (simp add: eval_orders_facts(2-))
  have "\<forall>j < 2. ''Data.customers''
          \<notin> set (assignedPaths ([''Data.orders = 1'', ''Data.orders = 2'', ''Data.customers = 3''] ! j))"
    by (auto simp: eval_orders_facts(2-) less_2_cases_iff)
  then have 2: "filter (\<lambda>s. sym_name s = ''Data.customers'') (symbols this')
         = [\<lparr>sym_name = ''Data.customers'', sym_type = Some ''property'', sym_line = 2,
             sym_character = 0\<rparr>]"
    using first_assignment_defines_property [OF a, of 2 "''Data.customers''", unfolded L]
    by (simp add: eval_orders_facts(2-))
  have m: "map assignedPaths (lines ?X) = [[''Data.orders''], [''Data.orders''], [''Data.customers'']]"
    unfolding L by (simp add: eval_orders_facts(2-))
  show ?thesis
    by (rule exI [of _ ds], rule exI [of _ this']) (simp only: a 1 2 m simp_thms)
qed

lemma var_age_number_facts:
  "trim ''var age: number'' = ''var age: number''"
  "\<not> skipLine ''var age: number''"
  "replace_strings (replace_comment ''var age: number'') = ''var age: number''"
  "countQuotes ''var age: number'' = 0"
  "\<not> test blockPattern ''var age: number''"
  "\<not> test endPattern ''var age: number''"
  "\<not> test loopControlPattern ''var age: number''"
  "varPrefixPattern ''var age: number''"
  "typeAnnotPattern ''var age: number'' = Some ''number''"
  "''number'' \<in> set typeKeywords"
  "funcCallMatches ''var age: number'' 0 = []"
  by code_simp+

lemma line_var_age_number:
  "checkSyntaxLine (i, ''var age: number'') (st, il, this) = (st, il, this)"
  by (simp add: checkSyntaxLine_def Let_def var_age_number_facts checkUnclosedString_def
      checkBlockStart_def checkBlockEnd_def checkLoopControl_def checkTypeAnnotation_def
      checkHostFunctions_def)

lemma eval_var_age_number:
  \<open>analyzeText ''var age: number'' defaultOptions =
     Inr ([], [\<lparr>sym_name = ''age'', sym_type = Some ''number'', sym_line = 0, sym_character = 4\<rparr>])\<close>
  by code_simp

lemma eval_var_age_int:
  \<open>analyzeText ''var age: int'' defaultOptions =
     Inr ([mkDiagnostic 0 9 0 12
             ''Unknown type "int". Expected: number, string, boolean, object, or array'' Error,
           mkDiagnostic 0 9 0 12 ''Undefined variable "int"'' Warning],
          [\<lparr>sym_name = ''age'', sym_type = Some ''int'', sym_line = 0, sym_character = 4\<rparr>])\<close>
  by code_simp

lemma annotation_position: "take 3 (drop 9 ''var age: int'') = ''int''"
  by code_simp

text \<open>
  C8. The line \<open>var age: number\<close> adds no diagnostic in the syntax pass, at any line index
  and in any state; the line \<open>var age: int\<close> adds exactly one, the Error
  \<open>Unknown type "int". Expected: number, string, boolean, object, or array\<close> at columns
  9 to 12, where the annotation \<open>int\<close> stands. As one-line documents, the first gets no
  diagnostic from \<open>analyze()\<close>, the second that one Error (and a Warning from the semantic
  pass).
\<close>

theorem declared_type_annotation:
  \<open>checkSyntaxLine (i, ''var age: number'') (st, il, this) = (st, il, this)
   \<and> checkSyntaxLine (i, ''var age: int'') (st, il, this)
       = (st, il, addDiagnostic i 9 i 12
            ''Unknown type "int". Expected: number, string, boolean, object, or array'' Error this)
   \<and> (\<exists>this'. analyze (new_DocumentAnalyzer ''var age: number'' [] defaultOptions) = Inr ([], this'))
   \<and> (\<exists>this'. analyze (new_DocumentAnalyzer ''var age: int'' [] defaultOptions)
         = Inr ([mkDiagnostic 0 9 0 12
                   ''Unknown type "int". Expected: number, string, boolean, object, or array'' Error,
                 mkDiagnostic 0 9 0 12 ''Undefined variable "int"'' Warning], this'))
   \<and> take 3 (drop 9 ''var age: int'') = ''int''\<close>
  using line_var_age_number line_var_age_int analyzeText_Inr [OF eval_var_age_number]
    analyzeText_Inr [OF eval_var_age_int] annotation_position
  by blast

text \<open>
  C9. For every input text and every options value, \<open>analyze()\<close> runs to completion and
  returns the diagnostic list it has accumulated: every loop of the model is a total
  function (each match of a global pattern moves \<open>lastIndex\<close> forward), and the one
  expression that could throw, \<open>this.lines[unclosed.line].length\<close>, always reads a line
  of the document. No check aborts the analysis.
\<close>

theorem analyze_runs_to_completion:
  "\<exists>ds this'. analyze (new_DocumentAnalyzer txt u opts) = Inr (ds, this') \<and> ds = diagnostics this'"
  by (rule analyze_total)

lemma eval_empty: "analyzeText [] defaultOptions = Inr ([], [])"
  by code_simp

theorem analyze_runs_to_completion_witness:
  "\<exists>ds this'. analyze (new_DocumentAnalyzer [] [] defaultOptions) = Inr (ds, this')
     \<and> ds = diagnostics this' \<and> ds = []"
  using analyze_runs_to_completion [of "[]" "[]" defaultOptions] analyzeText_Inr [OF eval_empty]
  by auto

text \<open>
  C10. Every diagnostic in the list returned by \<open>analyze()\<close> is well-formed: its range
  starts and ends on the same line, that line is a line of the document, its start
  character is at least 0 and at most its end character, and its source is \<open>jyro\<close>.
\<close>

theorem diagnostics_well_formed:
  assumes "analyze this = Inr (ds, this')" and "d \<in> set ds"
  shows "line (range_start (drange d)) = line (range_end (drange d))
       \<and> line (range_start (drange d)) < length (lines this)
       \<and> 0 \<le> character (range_start (drange d))
       \<and> character (range_start (drange d)) \<le> character (range_end (drange d))
       \<and> source d = ''jyro''"
proof -
  let ?a0 = "this\<lparr>diagnostics := [], symbols := []\<rparr>"
  let ?Q = "\<lambda>d. \<exists>i < length (lines this). diag_at i d"
  from assms(1) obtain a where a: "checkSyntax ?a0 = Inr a"
    and t: "this' = validateSemantics (extractSymbols a)" and ds: "ds = diagnostics this'"
    by (auto simp: analyze_Inr)
  have 1: "emits ?Q ?a0 a"
    using checkSyntax_emits [OF a] by simp
  then have la: "lines a = lines this"
    by (auto dest: emits_fields)
  have 2: "lines (extractSymbols a) = lines this" "diagnostics (extractSymbols a) = diagnostics a"
    using pushes_fields [OF pushes_extractSymbols [of a]] la by simp_all
  have 3: "emits ?Q (extractSymbols a) this'"
    unfolding t
    by (rule emits_mono [OF emits_validateSemantics]) (auto simp: 2 warningAt_def)
  from emits_diagnostics [OF 1] have "\<forall>d \<in> set (diagnostics a). ?Q d"
    by auto
  with emits_diagnostics [OF 3] have "\<forall>d \<in> set ds. ?Q d"
    by (auto simp: ds 2)
  with assms(2) show ?thesis
    by (auto simp: diag_at_def)
qed

lemma eval_end:
  "analyzeText ''end'' defaultOptions = Inr ([mkDiagnostic 0 0 0 3 unexpectedEndMessage Error], [])"
  by code_simp

theorem diagnostics_well_formed_witness:
  "\<exists>this' d. analyze (new_DocumentAnalyzer ''end'' [] defaultOptions) = Inr ([d], this')
     \<and> d \<in> set [d]
     \<and> line (range_start (drange d)) = line (range_end (drange d))
     \<and> line (range_start (drange d)) < length (lines (new_DocumentAnalyzer ''end'' [] defaultOptions))
     \<and> 0 \<le> character (range_start (drange d))
     \<and> character (range_start (drange d)) \<le> character (range_end (drange d))
     \<and> source d = ''jyro''"
proof -
  from analyzeText_Inr [OF eval_end] obtain this'
    where a: "analyze (new_DocumentAnalyzer ''end'' [] defaultOptions)
                = Inr ([mkDiagnostic 0 0 0 3 unexpectedEndMessage Error], this')"
    by blast
  from diagnostics_well_formed [OF a, of "mkDiagnostic 0 0 0 3 unexpectedEndMessage Error"] a
  show ?thesis
    by auto
qed

end
